theory Spec2Isabelle
  imports Main
begin

section \<open>Failures\<close>

text \<open>
  Every Go function modelled here returns either a value or an \<open>error\<close>; some can also
  panic. Both are values of one type, with the panics kept apart from the ordinary errors:
  an \<open>Err...\<close> constructor stands for one \<open>errors.Errorf\<close>/\<open>errors.New\<close> site of the
  source (its payload is the formatted argument), \<open>ErrExternal\<close> for an error produced
  outside the files modelled (the variable parser, provider resolution, a visitor), and the
  last four constructors for run-time panics, which unwind through every caller because no
  function of the source recovers.
\<close>

datatype failure =
    ErrMapArity
  | ErrNYICall string
  | ErrUnexpectedLiteralType
  | ErrUnsupportedCountVariable string
  | ErrNoCountIndex
  | ErrUnknownLocal string
  | ErrUnknownModule string
  | ErrNYIPathVariables
  | ErrUnknownResource string
  | ErrNYISelfVariables
  | ErrNYISimpleVariables
  | ErrNYITerraformVariables
  | ErrNYIUserVariableElements
  | ErrUnknownVariable string
  | ErrUnexpectedVariableType
  | ErrUnexpectedHILNode
  | ErrExternal string
  | PanicIndexOutOfRange
  | PanicNilDereference
  | PanicTypeAssertion
  | PanicContractFailf

fun isPanic :: "failure \<Rightarrow> bool" where
  "isPanic PanicIndexOutOfRange = True"
| "isPanic PanicNilDereference = True"
| "isPanic PanicTypeAssertion = True"
| "isPanic PanicContractFailf = True"
| "isPanic _ = False"

section \<open>Types and schemas\<close>

text \<open>
  Modelled from the spec: the declaration of \<open>Type\<close> and of its methods \<open>IsList\<close>,
  \<open>ElementType\<close>, \<open>ListOf\<close> and \<open>OutputOf\<close> is not among the source files. The spec
  gives five primitive variants and the two wrappers \<open>ListOf\<close> and \<open>OutputOf\<close>, calls the
  wrappers idempotent, and names the type obtained by wrapping in \<open>OutputOf\<close> and then in
  \<open>ListOf\<close> an \<open>OutputOf(ListOf(...))\<close>: the order of wrapping does not show in the
  type. So a type is a primitive variant together with whether it is a list and whether it
  is an output, and equality is that of the three components. \<open>ElementType\<close> of a list
  type is the type without the list, and \<open>Unknown\<close> for a type that is not a list.
\<close>

datatype PrimitiveType =
    PrimUnknown
  | PrimBool
  | PrimNumber
  | PrimString
  | PrimMap

datatype Type = MkType (primitive: PrimitiveType) (listFlag: bool) (outputFlag: bool)

abbreviation TypeUnknown :: Type where
  "TypeUnknown \<equiv> MkType PrimUnknown False False"

abbreviation TypeBool :: Type where
  "TypeBool \<equiv> MkType PrimBool False False"

abbreviation TypeNumber :: Type where
  "TypeNumber \<equiv> MkType PrimNumber False False"

abbreviation TypeString :: Type where
  "TypeString \<equiv> MkType PrimString False False"

abbreviation TypeMap :: Type where
  "TypeMap \<equiv> MkType PrimMap False False"

definition ListOf :: "Type \<Rightarrow> Type" where
  "ListOf t = MkType (primitive t) True (outputFlag t)"

definition OutputOf :: "Type \<Rightarrow> Type" where
  "OutputOf t = MkType (primitive t) (listFlag t) True"

definition IsList :: "Type \<Rightarrow> bool" where
  "IsList t = listFlag t"

definition ElementType :: "Type \<Rightarrow> Type" where
  "ElementType t =
     (if listFlag t then MkType (primitive t) False (outputFlag t) else TypeUnknown)"

text \<open>
  Modelled from the spec: the declaration of \<open>Schemas\<close> is not among the source files. A
  schema carries its declared type and its nested schemas by property name;
  \<open>PropertySchemas\<close> of a name that is not declared is a schema of type \<open>Unknown\<close>, which
  is also the zero value \<open>Schemas{}\<close>.
\<close>

datatype Schemas = Schemas (schemaType: Type) (properties: "(string \<times> Schemas) list")

definition emptySchemas :: Schemas where
  "emptySchemas = Schemas TypeUnknown []"

definition PropertySchemas :: "Schemas \<Rightarrow> string \<Rightarrow> Schemas" where
  "PropertySchemas s name =
     (case map_of (properties s) name of
        Some sub \<Rightarrow> sub
      | None \<Rightarrow> emptySchemas)"

section \<open>The expression AST and the interpolated variables\<close>

text \<open>
  The AST is that of the HIL library: only the fields the binder reads are kept (source
  positions are dropped). \<open>ast_OtherNode\<close> stands for every other implementation of the
  \<open>ast.Node\<close> interface, the nil interface included.
\<close>

datatype ast_Type =
    ast_TypeInvalid
  | ast_TypeAny
  | ast_TypeBool
  | ast_TypeString
  | ast_TypeInt
  | ast_TypeFloat
  | ast_TypeList
  | ast_TypeMap
  | ast_TypeUnknown

datatype ast_Value =
    BoolValue bool
  | IntValue int
  | FloatValue string
  | StringValue string

datatype ast_Node =
    ast_Arithmetic int "ast_Node list"
  | ast_Call string "ast_Node list"
  | ast_Conditional ast_Node ast_Node ast_Node
  | ast_Index ast_Node ast_Node
  | ast_LiteralNode ast_Value ast_Type
  | ast_Output "ast_Node list"
  | ast_VariableAccess string
  | ast_OtherNode

text \<open>
  The interpolated variables are those of Terraform's \<open>config\<close> package, with the fields
  and method results the binder reads: a count variable's \<open>Type\<close> and \<open>FullKey()\<close>; a
  resource variable's \<open>ResourceId()\<close>, \<open>Field\<close>, \<open>Multi\<close> and \<open>Index\<close>; a user variable's
  \<open>Name\<close> and \<open>Elem\<close>. \<open>OtherVariable\<close> stands for any other implementation of the
  interface.
\<close>

datatype CountValueType = CountValueInvalid | CountValueIndex

datatype InterpolatedVariable =
    CountVariable CountValueType string
  | LocalVariable string
  | ModuleVariable string string
  | PathVariable
  | ResourceVariable string string bool int
  | SelfVariable
  | SimpleVariable string
  | TerraformVariable
  | UserVariable string string
  | OtherVariable

section \<open>Bound nodes\<close>

text \<open>
  A bound variable access refers to its graph node without owning it: the reference is the
  kind of the node and its key in the builder's table.
\<close>

datatype Node =
    ResourceNodeRef string
  | ModuleNodeRef string
  | LocalNodeRef string
  | VariableNodeRef string

text \<open>
  The \<open>BoundExpr\<close> variants, with the fields the source assigns. A Go interface value may
  be nil, so the slots of a conditional and of an index, which the visitor can set to nil,
  are options; the slices hold no nil entry (neither the binder nor the visitor stores one
  in a slice it returns).
\<close>

datatype BoundExpr =
    BoundArithmetic ast_Node "BoundExpr list"
  | BoundCall ast_Node Type "BoundExpr list"
  | BoundConditional ast_Node Type "BoundExpr option" "BoundExpr option" "BoundExpr option"
  | BoundIndex ast_Node Type "BoundExpr option" "BoundExpr option"
  | BoundLiteral Type ast_Value
  | BoundOutput ast_Node "BoundExpr list"
  | BoundVariableAccess ast_Node "string list" Schemas Type InterpolatedVariable "Node option"

text \<open>
  A \<open>BoundNode\<close> is a bound expression or one of the two container nodes, which are not
  expressions. The elements of a map property are kept as an association list: its order
  stands for the order in which one run iterates over the Go map.
\<close>

datatype BoundNode =
    Expr BoundExpr
  | BoundListProperty "BoundNode list"
  | BoundMapProperty "(string \<times> BoundNode) list"

text \<open>
  Modelled from the spec: the \<open>Type()\<close> methods are not among the source files. A node that
  has an \<open>ExprType\<close> field reports it. The spec leaves the type of an arithmetic and of an
  output node to their consumer, so it is the parameter \<open>ext\<close> here.
\<close>

fun Type_of :: "(BoundExpr \<Rightarrow> Type) \<Rightarrow> BoundExpr \<Rightarrow> Type" where
  "Type_of ext (BoundArithmetic h exprs) = ext (BoundArithmetic h exprs)"
| "Type_of ext (BoundCall h t args) = t"
| "Type_of ext (BoundConditional h t c tr fl) = t"
| "Type_of ext (BoundIndex h t target key) = t"
| "Type_of ext (BoundLiteral t v) = t"
| "Type_of ext (BoundOutput h exprs) = ext (BoundOutput h exprs)"
| "Type_of ext (BoundVariableAccess h elements sch t tfVar ilNode) = t"

section \<open>Graph nodes and the binder's state\<close>

text \<open>
  Of a resource node the binder reads the schema (\<open>r.Schemas()\<close>, read after the provider
  is ensured); of a variable node the default value, nil or a node with a \<open>Type()\<close>, so a
  bound expression. Local and module nodes are only looked up. \<open>ensureProvider\<close> belongs to the builder and is not among the source files: it is a
  field here, returning the error if there is one.
\<close>

record ResourceNode =
  resourceSchemas :: Schemas

record VariableNode =
  DefaultValue :: "BoundExpr option"

record LocalNode =
  localName :: string

record ModuleNode =
  moduleName :: string

record builder =
  resources :: "string \<rightharpoonup> ResourceNode"
  modules :: "string \<rightharpoonup> ModuleNode"
  locals :: "string \<rightharpoonup> LocalNode"
  variables :: "string \<rightharpoonup> VariableNode"
  ensureProvider :: "ResourceNode \<Rightarrow> failure option"

text \<open>
  Besides the two fields of the source, the binder carries what the source takes from
  elsewhere: \<open>NewInterpolatedVariable\<close>, the parser of Terraform's \<open>config\<close> package, and
  \<open>typeOfOther\<close>, the \<open>Type()\<close> of arithmetic and output nodes.
\<close>

record propertyBinder =
  builder :: builder
  hasCountIndex :: bool
  NewInterpolatedVariable :: "string \<Rightarrow> failure + InterpolatedVariable"
  typeOfOther :: "BoundExpr \<Rightarrow> Type"

abbreviation exprTypeOf :: "propertyBinder \<Rightarrow> BoundExpr \<Rightarrow> Type" where
  "exprTypeOf b \<equiv> Type_of (typeOfOther b)"

section \<open>The binder\<close>

text \<open>\<open>strings.Split(s, ".")\<close>: the pieces of \<open>s\<close> between the separators, at least one.\<close>

fun Split :: "string \<Rightarrow> char \<Rightarrow> string list" where
  "Split [] sep = [[]]"
| "Split (c # cs) sep =
     (if c = sep then [] # Split cs sep
      else (case Split cs sep of
              [] \<Rightarrow> [[c]]
            | w # ws \<Rightarrow> (c # w) # ws))"

text \<open>
  Each \<open>bind...\<close> function of the source takes a pointer to one AST variant; here it is
  defined on that constructor only.
\<close>

fun bindLiteral :: "propertyBinder \<Rightarrow> ast_Node \<Rightarrow> failure + BoundExpr" where
  "bindLiteral b (ast_LiteralNode v typex) =
     (case typex of
        ast_TypeBool \<Rightarrow> Inr (BoundLiteral TypeBool v)
      | ast_TypeInt \<Rightarrow> Inr (BoundLiteral TypeNumber v)
      | ast_TypeFloat \<Rightarrow> Inr (BoundLiteral TypeNumber v)
      | ast_TypeString \<Rightarrow> Inr (BoundLiteral TypeString v)
      | _ \<Rightarrow> Inl ErrUnexpectedLiteralType)"

fun bindVariableAccess :: "propertyBinder \<Rightarrow> ast_Node \<Rightarrow> failure + BoundExpr" where
  "bindVariableAccess b (ast_VariableAccess name) =
     (case NewInterpolatedVariable b name of
        Inl err \<Rightarrow> Inl err
      | Inr tfVar \<Rightarrow>
         (case tfVar of
            CountVariable ty fullKey \<Rightarrow>
              if ty \<noteq> CountValueIndex then Inl (ErrUnsupportedCountVariable fullKey)
              else if \<not> hasCountIndex b then Inl ErrNoCountIndex
              else Inr (BoundVariableAccess (ast_VariableAccess name) [] emptySchemas
                          TypeNumber tfVar None)
          | LocalVariable vname \<Rightarrow>
              (case locals (builder b) vname of
                 None \<Rightarrow> Inl (ErrUnknownLocal vname)
               | Some l \<Rightarrow>
                   Inr (BoundVariableAccess (ast_VariableAccess name) [] emptySchemas
                          (OutputOf TypeUnknown) tfVar (Some (LocalNodeRef vname))))
          | ModuleVariable vname field \<Rightarrow>
              (case modules (builder b) vname of
                 None \<Rightarrow> Inl (ErrUnknownModule vname)
               | Some m \<Rightarrow>
                   Inr (BoundVariableAccess (ast_VariableAccess name) [] emptySchemas
                          (OutputOf TypeUnknown) tfVar (Some (ModuleNodeRef vname))))
          | PathVariable \<Rightarrow> Inl ErrNYIPathVariables
          | ResourceVariable resourceId field multi index \<Rightarrow>
              (case resources (builder b) resourceId of
                 None \<Rightarrow> Inl (ErrUnknownResource resourceId)
               | Some r \<Rightarrow>
                  (case ensureProvider (builder b) r of
                     Some err \<Rightarrow> Inl err
                   | None \<Rightarrow>
                      (let sch = resourceSchemas r;
                           elements = Split field CHR ''.'';
                           elemSch = foldl PropertySchemas sch elements;
                           exprType = OutputOf (schemaType elemSch);
                           exprType' = (if multi \<and> index = - 1 then ListOf exprType
                                        else exprType)
                       in Inr (BoundVariableAccess (ast_VariableAccess name) elements sch
                                 exprType' tfVar (Some (ResourceNodeRef resourceId))))))
          | SelfVariable \<Rightarrow> Inl ErrNYISelfVariables
          | SimpleVariable key \<Rightarrow> Inl ErrNYISimpleVariables
          | TerraformVariable \<Rightarrow> Inl ErrNYITerraformVariables
          | UserVariable vname elem \<Rightarrow>
              if elem \<noteq> [] then Inl ErrNYIUserVariableElements
              else (case variables (builder b) vname of
                      None \<Rightarrow> Inl (ErrUnknownVariable vname)
                    | Some vn \<Rightarrow>
                       (let exprType =
                              (case DefaultValue vn of
                                 None \<Rightarrow> TypeString
                               | Some d \<Rightarrow>
                                   if exprTypeOf b d \<noteq> TypeString then TypeUnknown
                                   else TypeString)
                        in Inr (BoundVariableAccess (ast_VariableAccess name) [] emptySchemas
                                  exprType tfVar (Some (VariableNodeRef vname)))))
          | OtherVariable \<Rightarrow> Inl ErrUnexpectedVariableType))"

text \<open>
  \<open>bindExprs\<close> fills the result slice from left to right and stops at the first error.
  In \<open>bindCall\<close>, \<open>args[0]\<close> of an empty slice is Go's index-out-of-range panic.
\<close>

fun bindExpr :: "propertyBinder \<Rightarrow> ast_Node \<Rightarrow> failure + BoundExpr"
  and bindExprs :: "propertyBinder \<Rightarrow> ast_Node list \<Rightarrow> failure + BoundExpr list"
  and bindArithmetic :: "propertyBinder \<Rightarrow> ast_Node \<Rightarrow> failure + BoundExpr"
  and bindCall :: "propertyBinder \<Rightarrow> ast_Node \<Rightarrow> failure + BoundExpr"
  and bindConditional :: "propertyBinder \<Rightarrow> ast_Node \<Rightarrow> failure + BoundExpr"
  and bindIndex :: "propertyBinder \<Rightarrow> ast_Node \<Rightarrow> failure + BoundExpr"
  and bindOutput :: "propertyBinder \<Rightarrow> ast_Node \<Rightarrow> failure + BoundExpr"
where
  "bindExpr b n =
     (case n of
        ast_Arithmetic op exprs \<Rightarrow> bindArithmetic b n
      | ast_Call func args \<Rightarrow> bindCall b n
      | ast_Conditional c t f \<Rightarrow> bindConditional b n
      | ast_Index target key \<Rightarrow> bindIndex b n
      | ast_LiteralNode v typex \<Rightarrow> bindLiteral b n
      | ast_Output exprs \<Rightarrow> bindOutput b n
      | ast_VariableAccess name \<Rightarrow> bindVariableAccess b n
      | ast_OtherNode \<Rightarrow> Inl ErrUnexpectedHILNode)"
| "bindExprs b [] = Inr []"
| "bindExprs b (n # ns) =
     (case bindExpr b n of
        Inl err \<Rightarrow> Inl err
      | Inr bn \<Rightarrow>
         (case bindExprs b ns of
            Inl err \<Rightarrow> Inl err
          | Inr bns \<Rightarrow> Inr (bn # bns)))"
| "bindArithmetic b (ast_Arithmetic op exprs) =
     (case bindExprs b exprs of
        Inl err \<Rightarrow> Inl err
      | Inr exprs' \<Rightarrow> Inr (BoundArithmetic (ast_Arithmetic op exprs) exprs'))"
| "bindCall b (ast_Call func args) =
     (case bindExprs b args of
        Inl err \<Rightarrow> Inl err
      | Inr args' \<Rightarrow>
         (let n = ast_Call func args in
          if func = ''base64decode'' then Inr (BoundCall n TypeString args')
          else if func = ''base64encode'' then Inr (BoundCall n TypeString args')
          else if func = ''chomp'' then Inr (BoundCall n TypeString args')
          else if func = ''element'' then
            (case args' of
               [] \<Rightarrow> Inl PanicIndexOutOfRange
             | a # _ \<Rightarrow>
                 if IsList (exprTypeOf b a)
                 then Inr (BoundCall n (ElementType (exprTypeOf b a)) args')
                 else Inr (BoundCall n TypeUnknown args'))
          else if func = ''file'' then Inr (BoundCall n TypeString args')
          else if func = ''format'' then Inr (BoundCall n TypeString args')
          else if func = ''list'' then Inr (BoundCall n (ListOf TypeUnknown) args')
          else if func = ''lookup'' then Inr (BoundCall n TypeUnknown args')
          else if func = ''map'' then
            (if length args' mod 2 \<noteq> 0 then Inl ErrMapArity
             else Inr (BoundCall n TypeMap args'))
          else if func = ''split'' then Inr (BoundCall n (ListOf TypeString) args')
          else Inl (ErrNYICall func)))"
| "bindConditional b (ast_Conditional c t f) =
     (case bindExpr b c of
        Inl err \<Rightarrow> Inl err
      | Inr condExpr \<Rightarrow>
         (case bindExpr b t of
            Inl err \<Rightarrow> Inl err
          | Inr trueExpr \<Rightarrow>
             (case bindExpr b f of
                Inl err \<Rightarrow> Inl err
              | Inr falseExpr \<Rightarrow>
                 (let exprType = exprTypeOf b trueExpr;
                      exprType' = (if exprType \<noteq> exprTypeOf b falseExpr then TypeUnknown
                                   else exprType)
                  in Inr (BoundConditional (ast_Conditional c t f) exprType'
                            (Some condExpr) (Some trueExpr) (Some falseExpr))))))"
| "bindIndex b (ast_Index target key) =
     (case bindExpr b target of
        Inl err \<Rightarrow> Inl err
      | Inr boundTarget \<Rightarrow>
         (case bindExpr b key of
            Inl err \<Rightarrow> Inl err
          | Inr boundKey \<Rightarrow>
             (let targetType = exprTypeOf b boundTarget;
                  exprType = (if IsList targetType then ElementType targetType
                              else TypeUnknown)
              in Inr (BoundIndex (ast_Index target key) exprType
                        (Some boundTarget) (Some boundKey)))))"
| "bindOutput b (ast_Output exprs) =
     (case bindExprs b exprs of
        Inl err \<Rightarrow> Inl err
      | Inr exprs' \<Rightarrow>
         (if length exprs' = 1 then Inr (exprs' ! 0)
          else Inr (BoundOutput (ast_Output exprs) exprs')))"

section \<open>The bound-tree visitor\<close>

text \<open>
  A Go visitor is a closure: besides returning a node (nil to delete) or an error it may
  change what it has captured. The state \<open>'s\<close> stands for that; a visitor takes it and
  returns it updated. The argument and the result of a visitor are interface values, so nil
  is \<open>None\<close>.
\<close>

type_synonym 's BoundNodeVisitor =
  "BoundNode option \<Rightarrow> 's \<Rightarrow> (failure + BoundNode option) \<times> 's"

definition IdentityVisitor :: "'s BoundNodeVisitor" where
  "IdentityVisitor n s = (Inr n, s)"

text \<open>The second loop of \<open>visitBoundExprs\<close> and \<open>visitBoundNodes\<close>: the non-nil entries, in order.\<close>

fun nonNil :: "'a option list \<Rightarrow> 'a list" where
  "nonNil [] = []"
| "nonNil (e # es) = (case e of None \<Rightarrow> nonNil es | Some x \<Rightarrow> x # nonNil es)"

text \<open>
  The traversal descends into whatever the pre visitor returns, so nothing bounds its depth:
  \<open>VisitBoundNode\<close> takes fuel, one unit per nested call, and \<open>None\<close> is a walk that did
  not return within it. A result is the value or failure together with the visitors' state.

  The functions \<open>VisitBoundNode\<close> calls, and which call it back, are defined first; their
  first argument \<open>visit\<close> is the \<open>VisitBoundNode\<close> they call, which the definition of
  \<open>VisitBoundNode\<close> below instantiates with itself at one unit of fuel less. The nodes are
  rebuilt rather than assigned in place. Each \<open>visitBound...\<close> function takes a pointer to
  one variant in the source and is defined on that constructor only. The two \<open>..._loop\<close>
  functions are the first loop of \<open>visitBoundExprs\<close> and of \<open>visitBoundNodes\<close>: they return
  the slice as overwritten with the results, and the count of nil results.
\<close>

type_synonym 's visit =
  "BoundNode option \<Rightarrow> 's BoundNodeVisitor \<Rightarrow> 's BoundNodeVisitor \<Rightarrow> 's
    \<Rightarrow> ((failure + BoundNode option) \<times> 's) option"

definition VisitBoundExpr_via ::
  "'s visit \<Rightarrow> BoundExpr option \<Rightarrow> 's BoundNodeVisitor \<Rightarrow> 's BoundNodeVisitor \<Rightarrow> 's
    \<Rightarrow> ((failure + BoundExpr option) \<times> 's) option" where
  "VisitBoundExpr_via visit n pre post s =
     (case visit (map_option Expr n) pre post s of
        None \<Rightarrow> None
      | Some (Inl err, s1) \<Rightarrow> Some (Inl err, s1)
      | Some (Inr None, s1) \<Rightarrow> Some (Inr None, s1)
      | Some (Inr (Some nn), s1) \<Rightarrow>
         (case nn of
            Expr e \<Rightarrow> Some (Inr (Some e), s1)
          | _ \<Rightarrow> Some (Inl PanicTypeAssertion, s1)))"

fun visitBoundExprs_loop ::
  "'s visit \<Rightarrow> BoundExpr list \<Rightarrow> 's BoundNodeVisitor \<Rightarrow> 's BoundNodeVisitor \<Rightarrow> 's
    \<Rightarrow> ((failure + BoundExpr option list \<times> nat) \<times> 's) option" where
  "visitBoundExprs_loop visit [] pre post s = Some (Inr ([], 0), s)"
| "visitBoundExprs_loop visit (e # es) pre post s =
     (case VisitBoundExpr_via visit (Some e) pre post s of
        None \<Rightarrow> None
      | Some (Inl err, s1) \<Rightarrow> Some (Inl err, s1)
      | Some (Inr ee, s1) \<Rightarrow>
         (case visitBoundExprs_loop visit es pre post s1 of
            None \<Rightarrow> None
          | Some (Inl err, s2) \<Rightarrow> Some (Inl err, s2)
          | Some (Inr (ees, nils), s2) \<Rightarrow>
              Some (Inr (ee # ees, (if ee = None then nils + 1 else nils)), s2)))"

definition visitBoundExprs ::
  "'s visit \<Rightarrow> BoundExpr list \<Rightarrow> 's BoundNodeVisitor \<Rightarrow> 's BoundNodeVisitor \<Rightarrow> 's
    \<Rightarrow> ((failure + BoundExpr list) \<times> 's) option" where
  "visitBoundExprs visit ns pre post s =
     (case visitBoundExprs_loop visit ns pre post s of
        None \<Rightarrow> None
      | Some (Inl err, s1) \<Rightarrow> Some (Inl err, s1)
      | Some (Inr (ns', nils), s1) \<Rightarrow>
          if nils = 0 then Some (Inr (nonNil ns'), s1)
          else if nils = length ns' then Some (Inr [], s1)
          else Some (Inr (nonNil ns'), s1))"

fun visitBoundNodes_loop ::
  "'s visit \<Rightarrow> BoundNode list \<Rightarrow> 's BoundNodeVisitor \<Rightarrow> 's BoundNodeVisitor \<Rightarrow> 's
    \<Rightarrow> ((failure + BoundNode option list \<times> nat) \<times> 's) option" where
  "visitBoundNodes_loop visit [] pre post s = Some (Inr ([], 0), s)"
| "visitBoundNodes_loop visit (e # es) pre post s =
     (case visit (Some e) pre post s of
        None \<Rightarrow> None
      | Some (Inl err, s1) \<Rightarrow> Some (Inl err, s1)
      | Some (Inr ee, s1) \<Rightarrow>
         (case visitBoundNodes_loop visit es pre post s1 of
            None \<Rightarrow> None
          | Some (Inl err, s2) \<Rightarrow> Some (Inl err, s2)
          | Some (Inr (ees, nils), s2) \<Rightarrow>
              Some (Inr (ee # ees, (if ee = None then nils + 1 else nils)), s2)))"

definition visitBoundNodes ::
  "'s visit \<Rightarrow> BoundNode list \<Rightarrow> 's BoundNodeVisitor \<Rightarrow> 's BoundNodeVisitor \<Rightarrow> 's
    \<Rightarrow> ((failure + BoundNode list) \<times> 's) option" where
  "visitBoundNodes visit ns pre post s =
     (case visitBoundNodes_loop visit ns pre post s of
        None \<Rightarrow> None
      | Some (Inl err, s1) \<Rightarrow> Some (Inl err, s1)
      | Some (Inr (ns', nils), s1) \<Rightarrow>
          if nils = 0 then Some (Inr (nonNil ns'), s1)
          else if nils = length ns' then Some (Inr [], s1)
          else Some (Inr (nonNil ns'), s1))"

fun visitBoundArithmetic ::
  "'s visit \<Rightarrow> BoundExpr \<Rightarrow> 's BoundNodeVisitor \<Rightarrow> 's BoundNodeVisitor \<Rightarrow> 's
    \<Rightarrow> ((failure + BoundNode option) \<times> 's) option" where
  "visitBoundArithmetic visit (BoundArithmetic h es) pre post s =
     (case visitBoundExprs visit es pre post s of
        None \<Rightarrow> None
      | Some (Inl err, s1) \<Rightarrow> Some (Inl err, s1)
      | Some (Inr exprs, s1) \<Rightarrow>
          if length exprs = 0 then Some (Inr None, s1)
          else Some (post (Some (Expr (BoundArithmetic h exprs))) s1))"

fun visitBoundCall ::
  "'s visit \<Rightarrow> BoundExpr \<Rightarrow> 's BoundNodeVisitor \<Rightarrow> 's BoundNodeVisitor \<Rightarrow> 's
    \<Rightarrow> ((failure + BoundNode option) \<times> 's) option" where
  "visitBoundCall visit (BoundCall h t args) pre post s =
     (case visitBoundExprs visit args pre post s of
        None \<Rightarrow> None
      | Some (Inl err, s1) \<Rightarrow> Some (Inl err, s1)
      | Some (Inr exprs, s1) \<Rightarrow> Some (post (Some (Expr (BoundCall h t exprs))) s1))"

fun visitBoundConditional ::
  "'s visit \<Rightarrow> BoundExpr \<Rightarrow> 's BoundNodeVisitor \<Rightarrow> 's BoundNodeVisitor \<Rightarrow> 's
    \<Rightarrow> ((failure + BoundNode option) \<times> 's) option" where
  "visitBoundConditional visit (BoundConditional h t c tr fl) pre post s =
     (case VisitBoundExpr_via visit c pre post s of
        None \<Rightarrow> None
      | Some (Inl err, s1) \<Rightarrow> Some (Inl err, s1)
      | Some (Inr condExpr, s1) \<Rightarrow>
         (case VisitBoundExpr_via visit tr pre post s1 of
            None \<Rightarrow> None
          | Some (Inl err, s2) \<Rightarrow> Some (Inl err, s2)
          | Some (Inr trueExpr, s2) \<Rightarrow>
             (case VisitBoundExpr_via visit fl pre post s2 of
                None \<Rightarrow> None
              | Some (Inl err, s3) \<Rightarrow> Some (Inl err, s3)
              | Some (Inr falseExpr, s3) \<Rightarrow>
                  Some (post (Some (Expr (BoundConditional h t condExpr trueExpr falseExpr)))
                          s3))))"

fun visitBoundIndex ::
  "'s visit \<Rightarrow> BoundExpr \<Rightarrow> 's BoundNodeVisitor \<Rightarrow> 's BoundNodeVisitor \<Rightarrow> 's
    \<Rightarrow> ((failure + BoundNode option) \<times> 's) option" where
  "visitBoundIndex visit (BoundIndex h t target key) pre post s =
     (case VisitBoundExpr_via visit target pre post s of
        None \<Rightarrow> None
      | Some (Inl err, s1) \<Rightarrow> Some (Inl err, s1)
      | Some (Inr targetExpr, s1) \<Rightarrow>
         (case VisitBoundExpr_via visit key pre post s1 of
            None \<Rightarrow> None
          | Some (Inl err, s2) \<Rightarrow> Some (Inl err, s2)
          | Some (Inr keyExpr, s2) \<Rightarrow>
              Some (post (Some (Expr (BoundIndex h t targetExpr keyExpr))) s2)))"

fun visitBoundListProperty ::
  "'s visit \<Rightarrow> BoundNode \<Rightarrow> 's BoundNodeVisitor \<Rightarrow> 's BoundNodeVisitor \<Rightarrow> 's
    \<Rightarrow> ((failure + BoundNode option) \<times> 's) option" where
  "visitBoundListProperty visit (BoundListProperty elems) pre post s =
     (case visitBoundNodes visit elems pre post s of
        None \<Rightarrow> None
      | Some (Inl err, s1) \<Rightarrow> Some (Inl err, s1)
      | Some (Inr exprs, s1) \<Rightarrow>
          if length exprs = 0 then Some (Inr None, s1)
          else Some (post (Some (BoundListProperty exprs)) s1))"

text \<open>
  The loop of \<open>visitBoundMapProperty\<close>: every key is visited once, a nil result deletes the
  key and any other result is stored under it.
\<close>

fun visitBoundMapProperty_loop ::
  "'s visit \<Rightarrow> (string \<times> BoundNode) list \<Rightarrow> 's BoundNodeVisitor \<Rightarrow> 's BoundNodeVisitor \<Rightarrow> 's
    \<Rightarrow> ((failure + (string \<times> BoundNode) list) \<times> 's) option" where
  "visitBoundMapProperty_loop visit [] pre post s = Some (Inr [], s)"
| "visitBoundMapProperty_loop visit ((k, e) # kes) pre post s =
     (case visit (Some e) pre post s of
        None \<Rightarrow> None
      | Some (Inl err, s1) \<Rightarrow> Some (Inl err, s1)
      | Some (Inr ee, s1) \<Rightarrow>
         (case visitBoundMapProperty_loop visit kes pre post s1 of
            None \<Rightarrow> None
          | Some (Inl err, s2) \<Rightarrow> Some (Inl err, s2)
          | Some (Inr kes', s2) \<Rightarrow>
              Some (Inr (case ee of None \<Rightarrow> kes' | Some e' \<Rightarrow> (k, e') # kes'), s2)))"

fun visitBoundMapProperty ::
  "'s visit \<Rightarrow> BoundNode \<Rightarrow> 's BoundNodeVisitor \<Rightarrow> 's BoundNodeVisitor \<Rightarrow> 's
    \<Rightarrow> ((failure + BoundNode option) \<times> 's) option" where
  "visitBoundMapProperty visit (BoundMapProperty elems) pre post s =
     (case visitBoundMapProperty_loop visit elems pre post s of
        None \<Rightarrow> None
      | Some (Inl err, s1) \<Rightarrow> Some (Inl err, s1)
      | Some (Inr elems', s1) \<Rightarrow> Some (post (Some (BoundMapProperty elems')) s1))"

fun visitBoundOutput ::
  "'s visit \<Rightarrow> BoundExpr \<Rightarrow> 's BoundNodeVisitor \<Rightarrow> 's BoundNodeVisitor \<Rightarrow> 's
    \<Rightarrow> ((failure + BoundNode option) \<times> 's) option" where
  "visitBoundOutput visit (BoundOutput h es) pre post s =
     (case visitBoundExprs visit es pre post s of
        None \<Rightarrow> None
      | Some (Inl err, s1) \<Rightarrow> Some (Inl err, s1)
      | Some (Inr exprs, s1) \<Rightarrow>
          if length exprs = 0 then Some (Inr None, s1)
          else Some (post (Some (Expr (BoundOutput h exprs))) s1))"

text \<open>
  \<open>VisitBoundNode\<close> itself. The type switch has no case for the nil interface, so a nil
  result of the pre visitor reaches the default branch, where \<open>contract.Failf\<close> panics (the
  statement after it is never reached).
\<close>

fun VisitBoundNode ::
  "nat \<Rightarrow> BoundNode option \<Rightarrow> 's BoundNodeVisitor \<Rightarrow> 's BoundNodeVisitor \<Rightarrow> 's
    \<Rightarrow> ((failure + BoundNode option) \<times> 's) option" where
  "VisitBoundNode 0 n pre post s = None"
| "VisitBoundNode (Suc fuel) n pre post s =
     (case pre n s of
        (Inl err, s1) \<Rightarrow> Some (Inl err, s1)
      | (Inr nn, s1) \<Rightarrow>
         (case nn of
            Some (Expr (BoundArithmetic h exprs)) \<Rightarrow>
              visitBoundArithmetic (VisitBoundNode fuel) (BoundArithmetic h exprs) pre post s1
          | Some (Expr (BoundCall h t args)) \<Rightarrow>
              visitBoundCall (VisitBoundNode fuel) (BoundCall h t args) pre post s1
          | Some (Expr (BoundConditional h t c tr fl)) \<Rightarrow>
              visitBoundConditional (VisitBoundNode fuel) (BoundConditional h t c tr fl)
                pre post s1
          | Some (Expr (BoundIndex h t target key)) \<Rightarrow>
              visitBoundIndex (VisitBoundNode fuel) (BoundIndex h t target key) pre post s1
          | Some (BoundListProperty elems) \<Rightarrow>
              visitBoundListProperty (VisitBoundNode fuel) (BoundListProperty elems) pre post s1
          | Some (Expr (BoundLiteral t v)) \<Rightarrow>
              Some (post (Some (Expr (BoundLiteral t v))) s1)
          | Some (BoundMapProperty elems) \<Rightarrow>
              visitBoundMapProperty (VisitBoundNode fuel) (BoundMapProperty elems) pre post s1
          | Some (Expr (BoundOutput h exprs)) \<Rightarrow>
              visitBoundOutput (VisitBoundNode fuel) (BoundOutput h exprs) pre post s1
          | Some (Expr (BoundVariableAccess h elements sch t tfVar ilNode)) \<Rightarrow>
              Some (post (Some (Expr (BoundVariableAccess h elements sch t tfVar ilNode))) s1)
          | None \<Rightarrow> Some (Inl PanicContractFailf, s1)))"

text \<open>The expression-typed entry point, with the fuel of the \<open>VisitBoundNode\<close> it calls.\<close>

definition VisitBoundExpr ::
  "nat \<Rightarrow> BoundExpr option \<Rightarrow> 's BoundNodeVisitor \<Rightarrow> 's BoundNodeVisitor \<Rightarrow> 's
    \<Rightarrow> ((failure + BoundExpr option) \<times> 's) option" where
  "VisitBoundExpr fuel n pre post s = VisitBoundExpr_via (VisitBoundNode fuel) n pre post s"

section \<open>Notions used to state the properties\<close>

text \<open>The \<open>Type()\<close> of the expression a bind returned, if it returned one.\<close>

definition boundType :: "propertyBinder \<Rightarrow> failure + BoundExpr \<Rightarrow> Type option" where
  "boundType b r = (case r of Inl err \<Rightarrow> None | Inr e \<Rightarrow> Some (exprTypeOf b e))"

text \<open>Whether a bound node implements \<open>BoundExpr\<close>: the two container nodes do not.\<close>

definition isBoundExpr :: "BoundNode \<Rightarrow> bool" where
  "isBoundExpr n = (case n of Expr e \<Rightarrow> True | _ \<Rightarrow> False)"

text \<open>
  The spec's words for a list-bearing node are that each child is visited independently.
  \<open>exprVisits fuel pre post es s outs s'\<close> says so for the children \<open>es\<close> of an arithmetic,
  call or output node: visited from left to right through \<open>VisitBoundExpr\<close>, starting in
  the visitors' state \<open>s\<close>, every visit returns without failure, \<open>outs\<close> are the results
  child by child (\<open>None\<close> for a deleted child) and \<open>s'\<close> is the state after the last visit.
  \<open>nodeVisits\<close> is the same for the elements of a list property, visited through
  \<open>VisitBoundNode\<close>.
\<close>

fun exprVisits ::
  "nat \<Rightarrow> 's BoundNodeVisitor \<Rightarrow> 's BoundNodeVisitor \<Rightarrow> BoundExpr list \<Rightarrow> 's
    \<Rightarrow> BoundExpr option list \<Rightarrow> 's \<Rightarrow> bool" where
  "exprVisits fuel pre post [] s outs s' = (outs = [] \<and> s' = s)"
| "exprVisits fuel pre post (e # es) s outs s' =
     (case outs of
        [] \<Rightarrow> False
      | r # rs \<Rightarrow>
          (case VisitBoundExpr fuel (Some e) pre post s of
             Some (Inr r', s1) \<Rightarrow> r' = r \<and> exprVisits fuel pre post es s1 rs s'
           | _ \<Rightarrow> False))"

fun nodeVisits ::
  "nat \<Rightarrow> 's BoundNodeVisitor \<Rightarrow> 's BoundNodeVisitor \<Rightarrow> BoundNode list \<Rightarrow> 's
    \<Rightarrow> BoundNode option list \<Rightarrow> 's \<Rightarrow> bool" where
  "nodeVisits fuel pre post [] s outs s' = (outs = [] \<and> s' = s)"
| "nodeVisits fuel pre post (e # es) s outs s' =
     (case outs of
        [] \<Rightarrow> False
      | r # rs \<Rightarrow>
          (case VisitBoundNode fuel (Some e) pre post s of
             Some (Inr r', s1) \<Rightarrow> r' = r \<and> nodeVisits fuel pre post es s1 rs s'
           | _ \<Rightarrow> False))"

text \<open>
  The results that are not deletions, in the order of the children they belong to.
\<close>

definition survivors :: "'a option list \<Rightarrow> 'a list" where
  "survivors outs = map the (filter (\<lambda>r. r \<noteq> None) outs)"

section \<open>Concrete inputs\<close>

text \<open>
  A builder with one resource, whose schema is \<open>{"name": String}\<close>, and two user variables,
  one without a default and one with a default of type number; a parser that knows the
  references used below; and a binder over them, inside or outside a count scope.
\<close>

definition testBuilder :: builder where
  "testBuilder =
     \<lparr> resources =
         [''aws_instance.web'' \<mapsto>
            \<lparr> resourceSchemas = Schemas TypeUnknown [(''name'', Schemas TypeString [])] \<rparr>],
       modules = Map.empty,
       locals = Map.empty,
       variables =
         [''region'' \<mapsto> \<lparr> DefaultValue = None \<rparr>,
          ''size'' \<mapsto> \<lparr> DefaultValue = Some (BoundLiteral TypeNumber (IntValue 2)) \<rparr>],
       ensureProvider = (\<lambda>r. None) \<rparr>"

definition testParse :: "string \<Rightarrow> failure + InterpolatedVariable" where
  "testParse name =
     (if name = ''count.index'' then Inr (CountVariable CountValueIndex ''count.index'')
      else if name = ''count.other'' then Inr (CountVariable CountValueInvalid ''count.other'')
      else if name = ''var.region'' then Inr (UserVariable ''region'' [])
      else if name = ''var.size'' then Inr (UserVariable ''size'' [])
      else if name = ''aws_instance.web.name''
        then Inr (ResourceVariable ''aws_instance.web'' ''name'' False 0)
      else if name = ''aws_instance.web.*.name''
        then Inr (ResourceVariable ''aws_instance.web'' ''name'' True (- 1))
      else Inl (ErrExternal name))"

definition testBinder :: "bool \<Rightarrow> propertyBinder" where
  "testBinder inCount =
     \<lparr> builder = testBuilder, hasCountIndex = inCount,
       NewInterpolatedVariable = testParse, typeOfOther = (\<lambda>e. TypeUnknown) \<rparr>"

definition numLit :: "int \<Rightarrow> ast_Node" where
  "numLit i = ast_LiteralNode (IntValue i) ast_TypeInt"

definition strLit :: "string \<Rightarrow> ast_Node" where
  "strLit x = ast_LiteralNode (StringValue x) ast_TypeString"

definition boundNum :: "int \<Rightarrow> BoundExpr" where
  "boundNum i = BoundLiteral TypeNumber (IntValue i)"

definition boundStr :: "string \<Rightarrow> BoundExpr" where
  "boundStr x = BoundLiteral TypeString (StringValue x)"

text \<open>
  Visitors that record every node they are called on in their state, a log. As post
  visitors, \<open>deleteLiterals\<close> deletes every literal and \<open>deleteStrings\<close> every literal of
  type string; \<open>deleteAll\<close> deletes whatever it is given.
\<close>

definition deleteLiterals :: "(BoundNode option list) BoundNodeVisitor" where
  "deleteLiterals n log =
     (case n of
        Some (Expr (BoundLiteral t v)) \<Rightarrow> (Inr None, log @ [n])
      | _ \<Rightarrow> (Inr n, log @ [n]))"

definition deleteStrings :: "(BoundNode option list) BoundNodeVisitor" where
  "deleteStrings n log =
     (case n of
        Some (Expr (BoundLiteral t v)) \<Rightarrow>
          if t = TypeString then (Inr None, log @ [n]) else (Inr n, log @ [n])
      | _ \<Rightarrow> (Inr n, log @ [n]))"

definition deleteAll :: "(BoundNode option list) BoundNodeVisitor" where
  "deleteAll n log = (Inr None, log @ [n])"

definition toListProperty :: "(BoundNode option list) BoundNodeVisitor" where
  "toListProperty n log =
     (case n of
        Some m \<Rightarrow> (Inr (Some (BoundListProperty [m])), log @ [n])
      | None \<Rightarrow> (Inr None, log @ [n]))"

text \<open>
  Pre visitors that replace an expression by a list property: \<open>toEmptyListProperty\<close> by
  the empty one, \<open>numbersToList\<close> a literal of type number by the list of one string
  literal, leaving every other node as it is.
\<close>

definition toEmptyListProperty :: "(BoundNode option list) BoundNodeVisitor" where
  "toEmptyListProperty n log =
     (case n of
        Some (Expr e) \<Rightarrow> (Inr (Some (BoundListProperty [])), log @ [n])
      | _ \<Rightarrow> (Inr n, log @ [n]))"

definition numbersToList :: "(BoundNode option list) BoundNodeVisitor" where
  "numbersToList n log =
     (case n of
        Some (Expr (BoundLiteral t v)) \<Rightarrow>
          if t = TypeNumber
          then (Inr (Some (BoundListProperty [Expr (BoundLiteral TypeString v)])), log @ [n])
          else (Inr n, log @ [n])
      | _ \<Rightarrow> (Inr n, log @ [n]))"

section \<open>Properties of the binder\<close>

lemma bindExprs_length: "bindExprs b ns = Inr bs \<Longrightarrow> length bs = length ns"
  by (induction ns arbitrary: bs) (auto split: sum.splits)

lemma bindExprs_all2:
  "bindExprs b ns = Inr bs \<Longrightarrow> list_all2 (\<lambda>n e. bindExpr b n = Inr e) ns bs"
  by (induction ns arbitrary: bs) (auto split: sum.splits)

text \<open>The wrappers commute and each is idempotent.\<close>

lemma ListOf_OutputOf: "ListOf (OutputOf t) = OutputOf (ListOf t)"
  by (simp add: ListOf_def OutputOf_def)

lemma ListOf_idem: "ListOf (ListOf t) = ListOf t"
  by (simp add: ListOf_def)

lemma OutputOf_idem: "OutputOf (OutputOf t) = OutputOf t"
  by (simp add: OutputOf_def)

text \<open>
  C1. When the reference parses to a resource variable, the resource is known and its
  provider is ensured, and the accessed field leads through the resource's schema to a leaf
  of type \<open>T\<close>, the bound variable access has type \<open>OutputOf(T)\<close> for a reference that is
  not a splat, and \<open>OutputOf(ListOf(T))\<close> for a multi reference without an index. The
  source wraps the leaf type in \<open>OutputOf\<close> and then, for the splat, in \<open>ListOf\<close>; the two
  wrappers commute.
\<close>

theorem resource_access_type:
  assumes "NewInterpolatedVariable b name = Inr (ResourceVariable rid field multi idx)"
    and "resources (builder b) rid = Some r"
    and "ensureProvider (builder b) r = None"
    and "schemaType (foldl PropertySchemas (resourceSchemas r) (Split field CHR ''.'')) = T"
  shows "boundType b (bindExpr b (ast_VariableAccess name)) =
           Some (if multi \<and> idx = - 1 then OutputOf (ListOf T) else OutputOf T)"
  using assms by (simp add: boundType_def Let_def ListOf_OutputOf)

theorem resource_access_type_witness:
  "boundType (testBinder False) (bindExpr (testBinder False) (ast_VariableAccess ''aws_instance.web.name''))
     = Some (OutputOf TypeString)
   \<and> boundType (testBinder False) (bindExpr (testBinder False) (ast_VariableAccess ''aws_instance.web.*.name''))
     = Some (OutputOf (ListOf TypeString))
   \<and> OutputOf (ListOf TypeString) \<noteq> OutputOf TypeString"
proof -
  let ?b = "testBinder False"
  let ?r = "\<lparr> resourceSchemas = Schemas TypeUnknown [(''name'', Schemas TypeString [])] \<rparr>"
  have p1: "NewInterpolatedVariable ?b ''aws_instance.web.name''
              = Inr (ResourceVariable ''aws_instance.web'' ''name'' False 0)"
    by (simp add: testBinder_def testParse_def)
  have p2: "NewInterpolatedVariable ?b ''aws_instance.web.*.name''
              = Inr (ResourceVariable ''aws_instance.web'' ''name'' True (- 1))"
    by (simp add: testBinder_def testParse_def)
  have r: "resources (builder ?b) ''aws_instance.web'' = Some ?r"
    by (simp add: testBinder_def testBuilder_def)
  have e: "ensureProvider (builder ?b) ?r = None"
    by (simp add: testBinder_def testBuilder_def)
  have t: "schemaType (foldl PropertySchemas (resourceSchemas ?r) (Split ''name'' CHR ''.''))
             = TypeString"
    by (simp add: PropertySchemas_def)
  have d: "OutputOf (ListOf TypeString) \<noteq> OutputOf TypeString"
    by (simp add: ListOf_def OutputOf_def)
  show ?thesis
    using resource_access_type [OF p1 r e t] resource_access_type [OF p2 r e t] d by simp
qed

text \<open>
  C4. When every argument binds, a call to \<open>map\<close> binds to a call node of type \<open>Map\<close> over
  the bound arguments if the number of arguments is even, and fails with the arity error if
  it is odd, whatever the arguments are.
\<close>

theorem map_call_arity:
  assumes "bindExprs b args = Inr args'"
  shows "bindExpr b (ast_Call ''map'' args) =
           (if even (length args) then Inr (BoundCall (ast_Call ''map'' args) TypeMap args')
            else Inl ErrMapArity)"
  using assms bindExprs_length [OF assms] by (simp add: even_iff_mod_2_eq_zero)

theorem map_call_arity_witness:
  "bindExpr (testBinder False) (ast_Call ''map'' [strLit ''k'', numLit 1]) =
     Inr (BoundCall (ast_Call ''map'' [strLit ''k'', numLit 1]) TypeMap [boundStr ''k'', boundNum 1])
   \<and> bindExpr (testBinder False) (ast_Call ''map'' [strLit ''k'']) = Inl ErrMapArity"
proof -
  have h2: "bindExprs (testBinder False) [strLit ''k'', numLit 1] = Inr [boundStr ''k'', boundNum 1]"
    by (simp add: strLit_def numLit_def boundStr_def boundNum_def)
  have h1: "bindExprs (testBinder False) [strLit ''k''] = Inr [boundStr ''k'']"
    by (simp add: strLit_def boundStr_def)
  show ?thesis
    using map_call_arity [OF h2] map_call_arity [OF h1] by simp
qed

text \<open>
  C5. When the condition and both branches bind, the bound conditional has the type of the
  true branch if the false branch has the same type, and \<open>Unknown\<close> otherwise; the three
  bound children are stored as they are.
\<close>

theorem conditional_type:
  assumes "bindExpr b c = Inr ce" and "bindExpr b t = Inr te" and "bindExpr b f = Inr fe"
  shows "bindExpr b (ast_Conditional c t f) =
           Inr (BoundConditional (ast_Conditional c t f)
                  (if exprTypeOf b te = exprTypeOf b fe then exprTypeOf b te else TypeUnknown)
                  (Some ce) (Some te) (Some fe))"
proof -
  have "bindConditional b (ast_Conditional c t f) =
           Inr (BoundConditional (ast_Conditional c t f)
                  (if exprTypeOf b te = exprTypeOf b fe then exprTypeOf b te else TypeUnknown)
                  (Some ce) (Some te) (Some fe))"
    using assms by (simp add: Let_def del: bindExpr.simps)
  then show ?thesis by simp
qed

theorem conditional_type_witness:
  "bindExpr (testBinder False) (ast_Conditional (numLit 1) (strLit ''a'') (strLit ''b'')) =
     Inr (BoundConditional (ast_Conditional (numLit 1) (strLit ''a'') (strLit ''b'')) TypeString
            (Some (boundNum 1)) (Some (boundStr ''a'')) (Some (boundStr ''b'')))
   \<and> bindExpr (testBinder False) (ast_Conditional (numLit 1) (numLit 2) (strLit ''b'')) =
     Inr (BoundConditional (ast_Conditional (numLit 1) (numLit 2) (strLit ''b'')) TypeUnknown
            (Some (boundNum 1)) (Some (boundNum 2)) (Some (boundStr ''b'')))"
proof -
  have n1: "bindExpr (testBinder False) (numLit 1) = Inr (boundNum 1)"
    by (simp add: numLit_def boundNum_def)
  have n2: "bindExpr (testBinder False) (numLit 2) = Inr (boundNum 2)"
    by (simp add: numLit_def boundNum_def)
  have a: "bindExpr (testBinder False) (strLit ''a'') = Inr (boundStr ''a'')"
    by (simp add: strLit_def boundStr_def)
  have b: "bindExpr (testBinder False) (strLit ''b'') = Inr (boundStr ''b'')"
    by (simp add: strLit_def boundStr_def)
  show ?thesis
    using conditional_type [OF n1 a b] conditional_type [OF n1 n2 b]
    by (simp add: boundStr_def boundNum_def del: bindExpr.simps)
qed

text \<open>
  C6. When all sub-expressions of an output bind, the bound sub-expressions are those of the
  children in order; the result is the bound sub-expression itself if there is exactly one,
  and an output node holding all of them, in order, if there are none or at least two.
\<close>

theorem output_projection:
  assumes "bindExprs b exprs = Inr bs"
  shows "list_all2 (\<lambda>n e. bindExpr b n = Inr e) exprs bs
         \<and> bindExpr b (ast_Output exprs) =
             (case bs of
                [e] \<Rightarrow> Inr e
              | _ \<Rightarrow> Inr (BoundOutput (ast_Output exprs) bs))"
proof -
  have "bindOutput b (ast_Output exprs) =
             (case bs of
                [e] \<Rightarrow> Inr e
              | _ \<Rightarrow> Inr (BoundOutput (ast_Output exprs) bs))"
    using assms by (auto split: list.splits)
  then show ?thesis using bindExprs_all2 [OF assms] by simp
qed

theorem output_projection_witness:
  "bindExpr (testBinder False) (ast_Output [strLit ''a'']) = Inr (boundStr ''a'')
   \<and> bindExpr (testBinder False) (ast_Output []) = Inr (BoundOutput (ast_Output []) [])
   \<and> bindExpr (testBinder False) (ast_Output [strLit ''a'', numLit 1]) =
       Inr (BoundOutput (ast_Output [strLit ''a'', numLit 1]) [boundStr ''a'', boundNum 1])"
proof -
  have h0: "bindExprs (testBinder False) [] = Inr []" by simp
  have h1: "bindExprs (testBinder False) [strLit ''a''] = Inr [boundStr ''a'']"
    by (simp add: strLit_def boundStr_def)
  have h2: "bindExprs (testBinder False) [strLit ''a'', numLit 1] = Inr [boundStr ''a'', boundNum 1]"
    by (simp add: strLit_def numLit_def boundStr_def boundNum_def)
  show ?thesis
    using output_projection [OF h0] output_projection [OF h1] output_projection [OF h2]
    by (simp del: bindExpr.simps)
qed

text \<open>
  C7. For a reference that parses to a count variable: of the index kind, binding fails
  with the no-count-index error outside a count scope and yields type \<open>Number\<close> inside
  one; of any other kind, binding fails whatever the scope.
\<close>

theorem count_index_scope:
  assumes "NewInterpolatedVariable b name = Inr (CountVariable ty key)"
  shows "(ty = CountValueIndex \<and> \<not> hasCountIndex b \<longrightarrow>
            bindExpr b (ast_VariableAccess name) = Inl ErrNoCountIndex)
       \<and> (ty = CountValueIndex \<and> hasCountIndex b \<longrightarrow>
            boundType b (bindExpr b (ast_VariableAccess name)) = Some TypeNumber)
       \<and> (ty \<noteq> CountValueIndex \<longrightarrow>
            bindExpr b (ast_VariableAccess name) = Inl (ErrUnsupportedCountVariable key))"
  using assms by (simp add: boundType_def)

theorem count_index_scope_witness:
  "bindExpr (testBinder False) (ast_VariableAccess ''count.index'') = Inl ErrNoCountIndex
   \<and> boundType (testBinder True) (bindExpr (testBinder True) (ast_VariableAccess ''count.index''))
       = Some TypeNumber
   \<and> bindExpr (testBinder True) (ast_VariableAccess ''count.other'')
       = Inl (ErrUnsupportedCountVariable ''count.other'')"
proof -
  have i: "\<And>c. NewInterpolatedVariable (testBinder c) ''count.index''
             = Inr (CountVariable CountValueIndex ''count.index'')"
    by (simp add: testBinder_def testParse_def)
  have k: "NewInterpolatedVariable (testBinder True) ''count.other''
             = Inr (CountVariable CountValueInvalid ''count.other'')"
    by (simp add: testBinder_def testParse_def)
  have s: "\<And>c. hasCountIndex (testBinder c) = c"
    by (simp add: testBinder_def)
  show ?thesis
    using count_index_scope [OF i [of False]] count_index_scope [OF i [of True]]
      count_index_scope [OF k] s
    by (simp del: bindExpr.simps)
qed

text \<open>
  C8. For a user variable without element that names a known variable node, the type is
  \<open>String\<close> if the node has no default value or a default of type \<open>String\<close>, and \<open>Unknown\<close>
  if it has a default of any other type.
\<close>

theorem user_variable_type:
  assumes "NewInterpolatedVariable b name = Inr (UserVariable vname [])"
    and "variables (builder b) vname = Some vn"
  shows "boundType b (bindExpr b (ast_VariableAccess name)) =
           Some (case DefaultValue vn of
                   None \<Rightarrow> TypeString
                 | Some d \<Rightarrow> if exprTypeOf b d = TypeString then TypeString else TypeUnknown)"
  using assms by (simp add: boundType_def Let_def split: option.splits)

theorem user_variable_type_witness:
  "boundType (testBinder False) (bindExpr (testBinder False) (ast_VariableAccess ''var.region''))
     = Some TypeString
   \<and> boundType (testBinder False) (bindExpr (testBinder False) (ast_VariableAccess ''var.size''))
     = Some TypeUnknown"
proof -
  let ?b = "testBinder False"
  have p1: "NewInterpolatedVariable ?b ''var.region'' = Inr (UserVariable ''region'' [])"
    by (simp add: testBinder_def testParse_def)
  have p2: "NewInterpolatedVariable ?b ''var.size'' = Inr (UserVariable ''size'' [])"
    by (simp add: testBinder_def testParse_def)
  have v1: "variables (builder ?b) ''region'' = Some \<lparr> DefaultValue = None \<rparr>"
    by (simp add: testBinder_def testBuilder_def)
  have v2: "variables (builder ?b) ''size''
              = Some \<lparr> DefaultValue = Some (BoundLiteral TypeNumber (IntValue 2)) \<rparr>"
    by (simp add: testBinder_def testBuilder_def)
  show ?thesis
    using user_variable_type [OF p1 v1] user_variable_type [OF p2 v2]
    by (simp del: bindExpr.simps)
qed

text \<open>
  C9 asks that binding a call to \<open>element\<close> without arguments returns a result or an error.
  The source reads \<open>args[0]\<close> without a length check, so for every binder the call ends in
  the index-out-of-range panic.
\<close>

theorem element_call_no_arguments:
  "bindExpr b (ast_Call ''element'' []) = Inl PanicIndexOutOfRange
   \<and> isPanic PanicIndexOutOfRange"
  by simp

section \<open>Fuel\<close>

text \<open>
  A walk that returns within some fuel returns the same result with any more: the fuel only
  bounds the depth, it does not change what the walk computes. Each function that takes the
  recursive call as its argument \<open>visit\<close> keeps its result when \<open>visit\<close> is replaced by one
  that returns at least where \<open>visit\<close> did.
\<close>

lemma VisitBoundExpr_via_mono:
  assumes le: "\<And>n pre post s r. v n pre post s = Some r \<Longrightarrow> w n pre post s = Some r"
    and "VisitBoundExpr_via v n pre post s = Some r"
  shows "VisitBoundExpr_via w n pre post s = Some r"
proof (cases "v (map_option Expr n) pre post s")
  case None
  with assms(2) show ?thesis by (simp add: VisitBoundExpr_via_def)
next
  case (Some x)
  then have "w (map_option Expr n) pre post s = Some x" by (rule le)
  with Some assms(2) show ?thesis by (simp add: VisitBoundExpr_via_def)
qed

lemma visitBoundExprs_loop_mono:
  assumes le: "\<And>n pre post s r. v n pre post s = Some r \<Longrightarrow> w n pre post s = Some r"
  shows "visitBoundExprs_loop v es pre post s = Some r \<Longrightarrow>
         visitBoundExprs_loop w es pre post s = Some r"
proof (induction es arbitrary: s r)
  case Nil
  then show ?case by simp
next
  case (Cons e es)
  show ?case
  proof (cases "VisitBoundExpr_via v (Some e) pre post s")
    case None
    with Cons.prems show ?thesis by simp
  next
    case (Some x)
    then have w: "VisitBoundExpr_via w (Some e) pre post s = Some x"
      by (rule VisitBoundExpr_via_mono [rotated]) (rule le)
    obtain res s1 where x: "x = (res, s1)" by (cases x)
    show ?thesis
    proof (cases res)
      case (Inl err)
      with Cons.prems Some w x show ?thesis by simp
    next
      case (Inr ee)
      show ?thesis
      proof (cases "visitBoundExprs_loop v es pre post s1")
        case None
        with Cons.prems Some x Inr show ?thesis by simp
      next
        case (Some y)
        then have "visitBoundExprs_loop w es pre post s1 = Some y" by (rule Cons.IH)
        with Cons.prems \<open>VisitBoundExpr_via v (Some e) pre post s = Some x\<close> w x Inr Some
        show ?thesis by simp
      qed
    qed
  qed
qed

lemma visitBoundNodes_loop_mono:
  assumes le: "\<And>n pre post s r. v n pre post s = Some r \<Longrightarrow> w n pre post s = Some r"
  shows "visitBoundNodes_loop v es pre post s = Some r \<Longrightarrow>
         visitBoundNodes_loop w es pre post s = Some r"
proof (induction es arbitrary: s r)
  case Nil
  then show ?case by simp
next
  case (Cons e es)
  show ?case
  proof (cases "v (Some e) pre post s")
    case None
    with Cons.prems show ?thesis by simp
  next
    case (Some x)
    then have w: "w (Some e) pre post s = Some x" by (rule le)
    obtain res s1 where x: "x = (res, s1)" by (cases x)
    show ?thesis
    proof (cases res)
      case (Inl err)
      with Cons.prems Some w x show ?thesis by simp
    next
      case (Inr ee)
      show ?thesis
      proof (cases "visitBoundNodes_loop v es pre post s1")
        case None
        with Cons.prems Some x Inr show ?thesis by simp
      next
        case (Some y)
        then have "visitBoundNodes_loop w es pre post s1 = Some y" by (rule Cons.IH)
        with Cons.prems \<open>v (Some e) pre post s = Some x\<close> w x Inr Some
        show ?thesis by simp
      qed
    qed
  qed
qed

lemma visitBoundMapProperty_loop_mono:
  assumes le: "\<And>n pre post s r. v n pre post s = Some r \<Longrightarrow> w n pre post s = Some r"
  shows "visitBoundMapProperty_loop v kes pre post s = Some r \<Longrightarrow>
         visitBoundMapProperty_loop w kes pre post s = Some r"
proof (induction kes arbitrary: s r)
  case Nil
  then show ?case by simp
next
  case (Cons ke kes)
  obtain k e where ke: "ke = (k, e)" by (cases ke)
  show ?case
  proof (cases "v (Some e) pre post s")
    case None
    with Cons.prems ke show ?thesis by simp
  next
    case (Some x)
    then have w: "w (Some e) pre post s = Some x" by (rule le)
    obtain res s1 where x: "x = (res, s1)" by (cases x)
    show ?thesis
    proof (cases res)
      case (Inl err)
      with Cons.prems Some w x ke show ?thesis by simp
    next
      case (Inr ee)
      show ?thesis
      proof (cases "visitBoundMapProperty_loop v kes pre post s1")
        case None
        with Cons.prems Some x Inr ke show ?thesis by simp
      next
        case (Some y)
        then have "visitBoundMapProperty_loop w kes pre post s1 = Some y" by (rule Cons.IH)
        with Cons.prems \<open>v (Some e) pre post s = Some x\<close> w x Inr Some ke
        show ?thesis by simp
      qed
    qed
  qed
qed

lemma visitBoundExprs_mono:
  assumes le: "\<And>n pre post s r. v n pre post s = Some r \<Longrightarrow> w n pre post s = Some r"
    and "visitBoundExprs v es pre post s = Some r"
  shows "visitBoundExprs w es pre post s = Some r"
proof (cases "visitBoundExprs_loop v es pre post s")
  case None
  with assms(2) show ?thesis by (simp add: visitBoundExprs_def)
next
  case (Some x)
  then have "visitBoundExprs_loop w es pre post s = Some x"
    by (rule visitBoundExprs_loop_mono [rotated]) (rule le)
  with Some assms(2) show ?thesis by (simp add: visitBoundExprs_def)
qed

lemma visitBoundNodes_mono:
  assumes le: "\<And>n pre post s r. v n pre post s = Some r \<Longrightarrow> w n pre post s = Some r"
    and "visitBoundNodes v es pre post s = Some r"
  shows "visitBoundNodes w es pre post s = Some r"
proof (cases "visitBoundNodes_loop v es pre post s")
  case None
  with assms(2) show ?thesis by (simp add: visitBoundNodes_def)
next
  case (Some x)
  then have "visitBoundNodes_loop w es pre post s = Some x"
    by (rule visitBoundNodes_loop_mono [rotated]) (rule le)
  with Some assms(2) show ?thesis by (simp add: visitBoundNodes_def)
qed

lemma visitBoundArithmetic_mono:
  assumes le: "\<And>n pre post s r. v n pre post s = Some r \<Longrightarrow> w n pre post s = Some r"
    and "visitBoundArithmetic v (BoundArithmetic h es) pre post s = Some r"
  shows "visitBoundArithmetic w (BoundArithmetic h es) pre post s = Some r"
proof (cases "visitBoundExprs v es pre post s")
  case None
  with assms(2) show ?thesis by simp
next
  case (Some x)
  then have "visitBoundExprs w es pre post s = Some x" by (rule visitBoundExprs_mono [rotated]) (rule le)
  with Some assms(2) show ?thesis by simp
qed

lemma visitBoundOutput_mono:
  assumes le: "\<And>n pre post s r. v n pre post s = Some r \<Longrightarrow> w n pre post s = Some r"
    and "visitBoundOutput v (BoundOutput h es) pre post s = Some r"
  shows "visitBoundOutput w (BoundOutput h es) pre post s = Some r"
proof (cases "visitBoundExprs v es pre post s")
  case None
  with assms(2) show ?thesis by simp
next
  case (Some x)
  then have "visitBoundExprs w es pre post s = Some x" by (rule visitBoundExprs_mono [rotated]) (rule le)
  with Some assms(2) show ?thesis by simp
qed

lemma visitBoundCall_mono:
  assumes le: "\<And>n pre post s r. v n pre post s = Some r \<Longrightarrow> w n pre post s = Some r"
    and "visitBoundCall v (BoundCall h t es) pre post s = Some r"
  shows "visitBoundCall w (BoundCall h t es) pre post s = Some r"
proof (cases "visitBoundExprs v es pre post s")
  case None
  with assms(2) show ?thesis by simp
next
  case (Some x)
  then have "visitBoundExprs w es pre post s = Some x" by (rule visitBoundExprs_mono [rotated]) (rule le)
  with Some assms(2) show ?thesis by simp
qed

lemma visitBoundListProperty_mono:
  assumes le: "\<And>n pre post s r. v n pre post s = Some r \<Longrightarrow> w n pre post s = Some r"
    and "visitBoundListProperty v (BoundListProperty ns) pre post s = Some r"
  shows "visitBoundListProperty w (BoundListProperty ns) pre post s = Some r"
proof (cases "visitBoundNodes v ns pre post s")
  case None
  with assms(2) show ?thesis by simp
next
  case (Some x)
  then have "visitBoundNodes w ns pre post s = Some x" by (rule visitBoundNodes_mono [rotated]) (rule le)
  with Some assms(2) show ?thesis by simp
qed

lemma visitBoundMapProperty_mono:
  assumes le: "\<And>n pre post s r. v n pre post s = Some r \<Longrightarrow> w n pre post s = Some r"
    and "visitBoundMapProperty v (BoundMapProperty kes) pre post s = Some r"
  shows "visitBoundMapProperty w (BoundMapProperty kes) pre post s = Some r"
proof (cases "visitBoundMapProperty_loop v kes pre post s")
  case None
  with assms(2) show ?thesis by simp
next
  case (Some x)
  then have "visitBoundMapProperty_loop w kes pre post s = Some x"
    by (rule visitBoundMapProperty_loop_mono [rotated]) (rule le)
  with Some assms(2) show ?thesis by simp
qed

lemma visitBoundIndex_mono:
  assumes le: "\<And>n pre post s r. v n pre post s = Some r \<Longrightarrow> w n pre post s = Some r"
    and "visitBoundIndex v (BoundIndex h t target key) pre post s = Some r"
  shows "visitBoundIndex w (BoundIndex h t target key) pre post s = Some r"
proof (cases "VisitBoundExpr_via v target pre post s")
  case None
  with assms(2) show ?thesis by simp
next
  case (Some x)
  then have w1: "VisitBoundExpr_via w target pre post s = Some x"
    by (rule VisitBoundExpr_via_mono [rotated]) (rule le)
  obtain res s1 where x: "x = (res, s1)" by (cases x)
  show ?thesis
  proof (cases res)
    case (Inl err)
    with assms(2) Some w1 x show ?thesis by simp
  next
    case (Inr targetExpr)
    show ?thesis
    proof (cases "VisitBoundExpr_via v key pre post s1")
      case None
      with assms(2) Some x Inr show ?thesis by simp
    next
      case (Some y)
      then have "VisitBoundExpr_via w key pre post s1 = Some y"
        by (rule VisitBoundExpr_via_mono [rotated]) (rule le)
      with assms(2) \<open>VisitBoundExpr_via v target pre post s = Some x\<close> w1 x Inr Some
      show ?thesis by simp
    qed
  qed
qed

lemma visitBoundConditional_mono:
  assumes le: "\<And>n pre post s r. v n pre post s = Some r \<Longrightarrow> w n pre post s = Some r"
    and "visitBoundConditional v (BoundConditional h t c tr fl) pre post s = Some r"
  shows "visitBoundConditional w (BoundConditional h t c tr fl) pre post s = Some r"
proof (cases "VisitBoundExpr_via v c pre post s")
  case None
  with assms(2) show ?thesis by simp
next
  case c1: (Some x)
  then have w1: "VisitBoundExpr_via w c pre post s = Some x"
    by (rule VisitBoundExpr_via_mono [rotated]) (rule le)
  obtain res s1 where x: "x = (res, s1)" by (cases x)
  show ?thesis
  proof (cases res)
    case (Inl err)
    with assms(2) c1 w1 x show ?thesis by simp
  next
    case r1: (Inr condExpr)
    show ?thesis
    proof (cases "VisitBoundExpr_via v tr pre post s1")
      case None
      with assms(2) c1 x r1 show ?thesis by simp
    next
      case c2: (Some y)
      then have w2: "VisitBoundExpr_via w tr pre post s1 = Some y"
        by (rule VisitBoundExpr_via_mono [rotated]) (rule le)
      obtain res2 s2 where y: "y = (res2, s2)" by (cases y)
      show ?thesis
      proof (cases res2)
        case (Inl err)
        with assms(2) c1 w1 x r1 c2 w2 y show ?thesis by simp
      next
        case r2: (Inr trueExpr)
        show ?thesis
        proof (cases "VisitBoundExpr_via v fl pre post s2")
          case None
          with assms(2) c1 x r1 c2 y r2 show ?thesis by simp
        next
          case c3: (Some z)
          then have "VisitBoundExpr_via w fl pre post s2 = Some z"
            by (rule VisitBoundExpr_via_mono [rotated]) (rule le)
          with assms(2) c1 w1 x r1 c2 w2 y r2 c3 show ?thesis by simp
        qed
      qed
    qed
  qed
qed

lemma VisitBoundNode_fuel_Suc:
  "VisitBoundNode fuel n pre post s = Some r \<Longrightarrow> VisitBoundNode (Suc fuel) n pre post s = Some r"
proof (induction fuel arbitrary: n pre post s r)
  case 0
  then show ?case by simp
next
  case (Suc fuel)
  obtain res s1 where p: "pre n s = (res, s1)" by (cases "pre n s")
  show ?case
  proof (cases res)
    case (Inl err)
    with Suc.prems p show ?thesis by auto
  next
    case (Inr nn)
    show ?thesis
    proof (cases nn)
      case None
      with Suc.prems p Inr show ?thesis by auto
    next
      case (Some m)
      show ?thesis
      proof (cases m)
        case (Expr e)
        show ?thesis
        proof (cases e)
          case (BoundArithmetic h es)
          with Suc.prems p Inr Some Expr
          have "visitBoundArithmetic (VisitBoundNode fuel) (BoundArithmetic h es) pre post s1 = Some r"
            by simp
          then have "visitBoundArithmetic (VisitBoundNode (Suc fuel)) (BoundArithmetic h es) pre post s1 = Some r"
            by (rule visitBoundArithmetic_mono [rotated]) (rule Suc.IH)
          with p Inr Some Expr BoundArithmetic show ?thesis
            by (simp del: visitBoundArithmetic.simps)
        next
          case (BoundCall h t es)
          with Suc.prems p Inr Some Expr
          have "visitBoundCall (VisitBoundNode fuel) (BoundCall h t es) pre post s1 = Some r"
            by simp
          then have "visitBoundCall (VisitBoundNode (Suc fuel)) (BoundCall h t es) pre post s1 = Some r"
            by (rule visitBoundCall_mono [rotated]) (rule Suc.IH)
          with p Inr Some Expr BoundCall show ?thesis
            by (simp del: visitBoundCall.simps)
        next
          case (BoundConditional h t c tr fl)
          with Suc.prems p Inr Some Expr
          have "visitBoundConditional (VisitBoundNode fuel) (BoundConditional h t c tr fl) pre post s1 = Some r"
            by simp
          then have "visitBoundConditional (VisitBoundNode (Suc fuel)) (BoundConditional h t c tr fl) pre post s1 = Some r"
            by (rule visitBoundConditional_mono [rotated]) (rule Suc.IH)
          with p Inr Some Expr BoundConditional show ?thesis
            by (simp del: visitBoundConditional.simps)
        next
          case (BoundIndex h t target key)
          with Suc.prems p Inr Some Expr
          have "visitBoundIndex (VisitBoundNode fuel) (BoundIndex h t target key) pre post s1 = Some r"
            by simp
          then have "visitBoundIndex (VisitBoundNode (Suc fuel)) (BoundIndex h t target key) pre post s1 = Some r"
            by (rule visitBoundIndex_mono [rotated]) (rule Suc.IH)
          with p Inr Some Expr BoundIndex show ?thesis
            by (simp del: visitBoundIndex.simps)
        next
          case (BoundLiteral t v)
          with Suc.prems p Inr Some Expr show ?thesis by auto
        next
          case (BoundOutput h es)
          with Suc.prems p Inr Some Expr
          have "visitBoundOutput (VisitBoundNode fuel) (BoundOutput h es) pre post s1 = Some r"
            by simp
          then have "visitBoundOutput (VisitBoundNode (Suc fuel)) (BoundOutput h es) pre post s1 = Some r"
            by (rule visitBoundOutput_mono [rotated]) (rule Suc.IH)
          with p Inr Some Expr BoundOutput show ?thesis
            by (simp del: visitBoundOutput.simps)
        next
          case (BoundVariableAccess h elements sch t tfVar ilNode)
          with Suc.prems p Inr Some Expr show ?thesis by auto
        qed
      next
        case (BoundListProperty ns)
        with Suc.prems p Inr Some
        have "visitBoundListProperty (VisitBoundNode fuel) (BoundListProperty ns) pre post s1 = Some r"
          by simp
        then have "visitBoundListProperty (VisitBoundNode (Suc fuel)) (BoundListProperty ns) pre post s1 = Some r"
          by (rule visitBoundListProperty_mono [rotated]) (rule Suc.IH)
        with p Inr Some BoundListProperty show ?thesis
          by (simp del: visitBoundListProperty.simps)
      next
        case (BoundMapProperty kes)
        with Suc.prems p Inr Some
        have "visitBoundMapProperty (VisitBoundNode fuel) (BoundMapProperty kes) pre post s1 = Some r"
          by simp
        then have "visitBoundMapProperty (VisitBoundNode (Suc fuel)) (BoundMapProperty kes) pre post s1 = Some r"
          by (rule visitBoundMapProperty_mono [rotated]) (rule Suc.IH)
        with p Inr Some BoundMapProperty show ?thesis
          by (simp del: visitBoundMapProperty.simps)
      qed
    qed
  qed
qed

lemma VisitBoundNode_fuel_mono:
  "VisitBoundNode fuel n pre post s = Some r \<Longrightarrow> fuel \<le> fuel' \<Longrightarrow>
   VisitBoundNode fuel' n pre post s = Some r"
proof (induction fuel' )
  case 0
  then show ?case by simp
next
  case (Suc fuel')
  show ?case
  proof (cases "fuel = Suc fuel'")
    case True
    with Suc.prems show ?thesis by simp
  next
    case False
    with Suc.prems have "fuel \<le> fuel'" by simp
    with Suc have "VisitBoundNode fuel' n pre post s = Some r" by simp
    then show ?thesis by (rule VisitBoundNode_fuel_Suc)
  qed
qed

section \<open>Properties of the visitor\<close>

text \<open>
  The loops of \<open>visitBoundExprs\<close> and \<open>visitBoundNodes\<close>: the count they keep is the number
  of nil results, so each of the three ways out returns the surviving results in order.
\<close>

lemma nonNil_survivors: "nonNil outs = survivors outs"
  by (induction outs) (auto simp: survivors_def split: option.splits)

lemma nonNil_all_nil: "count_list outs None = length outs \<Longrightarrow> nonNil outs = []"
proof (induction outs)
  case Nil
  then show ?case by simp
next
  case (Cons a outs)
  have "count_list outs None \<le> length outs" by (rule count_le_length)
  with Cons show ?case by (cases a) (auto split: if_splits)
qed

lemma exprs_loop_visits:
  "exprVisits fuel pre post es s outs s' \<Longrightarrow>
   visitBoundExprs_loop (VisitBoundNode fuel) es pre post s =
     Some (Inr (outs, count_list outs None), s')"
proof (induction es arbitrary: s outs)
  case Nil
  then show ?case by simp
next
  case (Cons e es)
  then show ?case
    by (auto simp: VisitBoundExpr_def split: list.splits option.splits sum.splits prod.splits)
qed

lemma nodes_loop_visits:
  "nodeVisits fuel pre post es s outs s' \<Longrightarrow>
   visitBoundNodes_loop (VisitBoundNode fuel) es pre post s =
     Some (Inr (outs, count_list outs None), s')"
proof (induction es arbitrary: s outs)
  case Nil
  then show ?case by simp
next
  case (Cons e es)
  then show ?case
    by (auto split: list.splits option.splits sum.splits prod.splits)
qed

lemma visitBoundExprs_survivors:
  "exprVisits fuel pre post es s outs s' \<Longrightarrow>
   visitBoundExprs (VisitBoundNode fuel) es pre post s = Some (Inr (survivors outs), s')"
  by (simp add: visitBoundExprs_def exprs_loop_visits nonNil_all_nil nonNil_survivors [symmetric])

lemma visitBoundNodes_survivors:
  "nodeVisits fuel pre post es s outs s' \<Longrightarrow>
   visitBoundNodes (VisitBoundNode fuel) es pre post s = Some (Inr (survivors outs), s')"
  by (simp add: visitBoundNodes_def nodes_loop_visits nonNil_all_nil nonNil_survivors [symmetric])

lemma visit_arithmetic:
  assumes "pre n s = (Inr (Some (Expr (BoundArithmetic h es))), sp)"
    and "exprVisits fuel pre post es sp outs sc"
  shows "VisitBoundNode (Suc fuel) n pre post s =
           (if survivors outs = [] then Some (Inr None, sc)
            else Some (post (Some (Expr (BoundArithmetic h (survivors outs)))) sc))"
  using assms by (simp add: visitBoundExprs_survivors)

lemma visit_output:
  assumes "pre n s = (Inr (Some (Expr (BoundOutput h es))), sp)"
    and "exprVisits fuel pre post es sp outs sc"
  shows "VisitBoundNode (Suc fuel) n pre post s =
           (if survivors outs = [] then Some (Inr None, sc)
            else Some (post (Some (Expr (BoundOutput h (survivors outs)))) sc))"
  using assms by (simp add: visitBoundExprs_survivors)

lemma visit_call:
  assumes "pre n s = (Inr (Some (Expr (BoundCall h t es))), sp)"
    and "exprVisits fuel pre post es sp outs sc"
  shows "VisitBoundNode (Suc fuel) n pre post s =
           Some (post (Some (Expr (BoundCall h t (survivors outs)))) sc)"
  using assms by (simp add: visitBoundExprs_survivors)

lemma visit_list_property:
  assumes "pre n s = (Inr (Some (BoundListProperty ns)), sp)"
    and "nodeVisits fuel pre post ns sp outs sc"
  shows "VisitBoundNode (Suc fuel) n pre post s =
           (if survivors outs = [] then Some (Inr None, sc)
            else Some (post (Some (BoundListProperty (survivors outs))) sc))"
  using assms by (simp add: visitBoundNodes_survivors)

text \<open>
  C2 (as amended). Let the pre visitor return a list-bearing node \<open>m\<close>, and let the visits of
  its children all return, with results \<open>outs\<close> and final state \<open>sc\<close>. For an arithmetic, an
  output and a list-property node: if every child is deleted the node is deleted, the walk
  returning the absent result in the state \<open>sc\<close> the children left, so without a call of the
  post visitor; otherwise the post visitor is called on the node holding exactly the surviving
  results, in the order of their children. For a call node the post visitor is called on the
  node holding the surviving arguments in every case, also when none survives.
\<close>

theorem list_bearing_deletion:
  assumes "pre n s = (Inr (Some m), sp)"
  shows "(m = Expr (BoundArithmetic h es) \<and> exprVisits fuel pre post es sp outs sc \<longrightarrow>
            VisitBoundNode (Suc fuel) n pre post s =
              (if survivors outs = [] then Some (Inr None, sc)
               else Some (post (Some (Expr (BoundArithmetic h (survivors outs)))) sc)))
       \<and> (m = Expr (BoundOutput h es) \<and> exprVisits fuel pre post es sp outs sc \<longrightarrow>
            VisitBoundNode (Suc fuel) n pre post s =
              (if survivors outs = [] then Some (Inr None, sc)
               else Some (post (Some (Expr (BoundOutput h (survivors outs)))) sc)))
       \<and> (m = BoundListProperty ns \<and> nodeVisits fuel pre post ns sp nouts sc \<longrightarrow>
            VisitBoundNode (Suc fuel) n pre post s =
              (if survivors nouts = [] then Some (Inr None, sc)
               else Some (post (Some (BoundListProperty (survivors nouts))) sc)))
       \<and> (m = Expr (BoundCall h t es) \<and> exprVisits fuel pre post es sp outs sc \<longrightarrow>
            VisitBoundNode (Suc fuel) n pre post s =
              Some (post (Some (Expr (BoundCall h t (survivors outs)))) sc))"
  using assms visit_arithmetic [of pre n s h es sp fuel post outs sc]
    visit_output [of pre n s h es sp fuel post outs sc]
    visit_list_property [of pre n s ns sp fuel post nouts sc]
    visit_call [of pre n s h t es sp fuel post outs sc]
  by blast

lemma visit_literal_deleteLiterals:
  "VisitBoundExpr (Suc 0) (Some (BoundLiteral t v)) IdentityVisitor deleteLiterals log =
     Some (Inr None, log @ [Some (Expr (BoundLiteral t v))])"
  by (simp add: VisitBoundExpr_def VisitBoundExpr_via_def IdentityVisitor_def deleteLiterals_def)

lemma visit_literal_deleteStrings:
  "VisitBoundNode (Suc 0) (Some (Expr (BoundLiteral t v))) IdentityVisitor deleteStrings log =
     Some (Inr (if t = TypeString then None else Some (Expr (BoundLiteral t v))),
           log @ [Some (Expr (BoundLiteral t v))])"
  by (simp add: IdentityVisitor_def deleteStrings_def)

lemma visit_expr_deleteStrings:
  "VisitBoundExpr (Suc 0) (Some (BoundLiteral t v)) IdentityVisitor deleteStrings log =
     Some (Inr (if t = TypeString then None else Some (BoundLiteral t v)),
           log @ [Some (Expr (BoundLiteral t v))])"
  by (simp add: VisitBoundExpr_def VisitBoundExpr_via_def IdentityVisitor_def deleteStrings_def)

theorem list_bearing_deletion_witness:
  "VisitBoundNode (Suc (Suc 0))
     (Some (Expr (BoundArithmetic ast_OtherNode [boundNum 1, boundNum 2, boundNum 3])))
     IdentityVisitor deleteLiterals [] =
   Some (Inr None, [Some (Expr (boundNum 1)), Some (Expr (boundNum 2)), Some (Expr (boundNum 3))])
   \<and> VisitBoundNode (Suc (Suc 0))
       (Some (Expr (BoundOutput ast_OtherNode [boundStr ''a'', boundNum 2, boundStr ''b''])))
       IdentityVisitor deleteStrings [] =
     Some (Inr (Some (Expr (BoundOutput ast_OtherNode [boundNum 2]))),
           [Some (Expr (boundStr ''a'')), Some (Expr (boundNum 2)), Some (Expr (boundStr ''b'')),
            Some (Expr (BoundOutput ast_OtherNode [boundNum 2]))])
   \<and> VisitBoundNode (Suc (Suc 0))
       (Some (BoundListProperty [Expr (boundNum 1), Expr (boundStr ''a''), Expr (boundNum 3)]))
       IdentityVisitor deleteStrings [] =
     Some (Inr (Some (BoundListProperty [Expr (boundNum 1), Expr (boundNum 3)])),
           [Some (Expr (boundNum 1)), Some (Expr (boundStr ''a'')), Some (Expr (boundNum 3)),
            Some (BoundListProperty [Expr (boundNum 1), Expr (boundNum 3)])])
   \<and> VisitBoundNode (Suc (Suc 0))
       (Some (Expr (BoundCall ast_OtherNode TypeUnknown [boundNum 1, boundNum 2, boundNum 3])))
       IdentityVisitor deleteLiterals [] =
     Some (Inr (Some (Expr (BoundCall ast_OtherNode TypeUnknown []))),
           [Some (Expr (boundNum 1)), Some (Expr (boundNum 2)), Some (Expr (boundNum 3)),
            Some (Expr (BoundCall ast_OtherNode TypeUnknown []))])"
proof -
  let ?es = "[boundNum 1, boundNum 2, boundNum 3]"
  let ?os = "[boundStr ''a'', boundNum 2, boundStr ''b'']"
  let ?ns = "[Expr (boundNum 1), Expr (boundStr ''a''), Expr (boundNum 3)]"
  let ?log = "[Some (Expr (boundNum 1)), Some (Expr (boundNum 2)), Some (Expr (boundNum 3))]"
  let ?olog = "[Some (Expr (boundStr ''a'')), Some (Expr (boundNum 2)), Some (Expr (boundStr ''b''))]"
  let ?nlog = "[Some (Expr (boundNum 1)), Some (Expr (boundStr ''a'')), Some (Expr (boundNum 3))]"
  have pa: "IdentityVisitor (Some (Expr (BoundArithmetic ast_OtherNode ?es)))
              ([] :: BoundNode option list) =
            (Inr (Some (Expr (BoundArithmetic ast_OtherNode ?es))), [])"
    by (simp add: IdentityVisitor_def)
  have po: "IdentityVisitor (Some (Expr (BoundOutput ast_OtherNode ?os)))
              ([] :: BoundNode option list) =
            (Inr (Some (Expr (BoundOutput ast_OtherNode ?os))), [])"
    by (simp add: IdentityVisitor_def)
  have pc: "IdentityVisitor (Some (Expr (BoundCall ast_OtherNode TypeUnknown ?es)))
              ([] :: BoundNode option list) =
            (Inr (Some (Expr (BoundCall ast_OtherNode TypeUnknown ?es))), [])"
    by (simp add: IdentityVisitor_def)
  have pl: "IdentityVisitor (Some (BoundListProperty ?ns)) ([] :: BoundNode option list) =
            (Inr (Some (BoundListProperty ?ns)), [])"
    by (simp add: IdentityVisitor_def)
  have ve: "exprVisits (Suc 0) IdentityVisitor deleteLiterals ?es [] [None, None, None] ?log"
    by (simp add: boundNum_def visit_literal_deleteLiterals)
  have vo: "exprVisits (Suc 0) IdentityVisitor deleteStrings ?os []
              [None, Some (boundNum 2), None] ?olog"
    by (simp add: boundNum_def boundStr_def visit_expr_deleteStrings)
  have vn: "nodeVisits (Suc 0) IdentityVisitor deleteStrings ?ns []
              [Some (Expr (boundNum 1)), None, Some (Expr (boundNum 3))] ?nlog"
    by (simp add: boundNum_def boundStr_def visit_literal_deleteStrings del: VisitBoundNode.simps)
  have a: "VisitBoundNode (Suc (Suc 0)) (Some (Expr (BoundArithmetic ast_OtherNode ?es)))
             IdentityVisitor deleteLiterals [] = Some (Inr None, ?log)"
    using list_bearing_deletion [where pre = IdentityVisitor and post = deleteLiterals
        and h = ast_OtherNode and es = ?es and outs = "[None, None, None]" and sc = ?log
        and fuel = "Suc 0", OF pa] ve
    by (simp add: survivors_def del: VisitBoundNode.simps exprVisits.simps)
  have ou: "VisitBoundNode (Suc (Suc 0)) (Some (Expr (BoundOutput ast_OtherNode ?os)))
             IdentityVisitor deleteStrings [] =
            Some (deleteStrings (Some (Expr (BoundOutput ast_OtherNode [boundNum 2]))) ?olog)"
    using list_bearing_deletion [where pre = IdentityVisitor and post = deleteStrings
        and h = ast_OtherNode and es = ?os and outs = "[None, Some (boundNum 2), None]"
        and sc = ?olog and fuel = "Suc 0", OF po] vo
    by (simp add: survivors_def del: VisitBoundNode.simps exprVisits.simps)
  have c: "VisitBoundNode (Suc (Suc 0))
             (Some (Expr (BoundCall ast_OtherNode TypeUnknown ?es)))
             IdentityVisitor deleteLiterals [] =
           Some (deleteLiterals (Some (Expr (BoundCall ast_OtherNode TypeUnknown []))) ?log)"
    using list_bearing_deletion [where pre = IdentityVisitor and post = deleteLiterals
        and h = ast_OtherNode and t = TypeUnknown and es = ?es and outs = "[None, None, None]"
        and sc = ?log and fuel = "Suc 0", OF pc] ve
    by (simp add: survivors_def del: VisitBoundNode.simps exprVisits.simps)
  have l: "VisitBoundNode (Suc (Suc 0)) (Some (BoundListProperty ?ns))
             IdentityVisitor deleteStrings [] =
           Some (deleteStrings (Some (BoundListProperty [Expr (boundNum 1), Expr (boundNum 3)]))
                   ?nlog)"
    using list_bearing_deletion [where pre = IdentityVisitor and post = deleteStrings
        and ns = ?ns and nouts = "[Some (Expr (boundNum 1)), None, Some (Expr (boundNum 3))]"
        and sc = ?nlog and fuel = "Suc 0", OF pl] vn
    by (simp add: survivors_def del: VisitBoundNode.simps nodeVisits.simps)
  show ?thesis
    unfolding a ou c l by (simp add: deleteLiterals_def deleteStrings_def)
qed

text \<open>
  C2 as stated fails for a call node: with a post visitor that deletes both arguments, the
  walk returns the call with no arguments, and the log shows the post visitor called on it.
\<close>

theorem call_not_deleted_counterexample:
  "exprVisits (Suc 0) IdentityVisitor deleteLiterals [boundNum 1, boundNum 2] []
     [None, None] [Some (Expr (boundNum 1)), Some (Expr (boundNum 2))]
   \<and> VisitBoundNode (Suc (Suc 0))
       (Some (Expr (BoundCall ast_OtherNode TypeUnknown [boundNum 1, boundNum 2])))
       IdentityVisitor deleteLiterals [] =
     Some (Inr (Some (Expr (BoundCall ast_OtherNode TypeUnknown []))),
           [Some (Expr (boundNum 1)), Some (Expr (boundNum 2)),
            Some (Expr (BoundCall ast_OtherNode TypeUnknown []))])"
proof -
  have v: "exprVisits (Suc 0) IdentityVisitor deleteLiterals [boundNum 1, boundNum 2] []
             [None, None] [Some (Expr (boundNum 1)), Some (Expr (boundNum 2))]"
    by (simp add: boundNum_def visit_literal_deleteLiterals)
  have "visitBoundExprs (VisitBoundNode (Suc 0)) [boundNum 1, boundNum 2]
          IdentityVisitor deleteLiterals [] =
        Some (Inr [], [Some (Expr (boundNum 1)), Some (Expr (boundNum 2))])"
    using visitBoundExprs_survivors [OF v] by (simp add: survivors_def)
  then have "VisitBoundNode (Suc (Suc 0))
       (Some (Expr (BoundCall ast_OtherNode TypeUnknown [boundNum 1, boundNum 2])))
       IdentityVisitor deleteLiterals [] =
     Some (Inr (Some (Expr (BoundCall ast_OtherNode TypeUnknown []))),
           [Some (Expr (boundNum 1)), Some (Expr (boundNum 2)),
            Some (Expr (BoundCall ast_OtherNode TypeUnknown []))])"
    by (simp add: IdentityVisitor_def deleteLiterals_def)
  with v show ?thesis by blast
qed

text \<open>
  C3 (as amended). A pre visitor that returns the absent result for a node does not delete
  it: the type switch has no case for nil, and the walk ends in the contract failure of its
  default branch, in the state the pre visitor left, so without a call of the post visitor.
  The absent result that deletes a node without failure is the post visitor's: for a literal
  the walk returns it as it is.
\<close>

theorem pre_nil_fails:
  "(pre n s = (Inr None, sp) \<longrightarrow>
      VisitBoundNode (Suc fuel) n pre post s = Some (Inl PanicContractFailf, sp))
   \<and> (pre n s = (Inr (Some (Expr (BoundLiteral t v))), sp)
        \<and> post (Some (Expr (BoundLiteral t v))) sp = (Inr None, sd) \<longrightarrow>
      VisitBoundNode (Suc fuel) n pre post s = Some (Inr None, sd))"
  by simp

theorem pre_nil_fails_witness:
  "VisitBoundNode (Suc 0) (Some (Expr (boundNum 1))) deleteAll IdentityVisitor [] =
     Some (Inl PanicContractFailf, [Some (Expr (boundNum 1))])
   \<and> VisitBoundNode (Suc 0) (Some (Expr (boundNum 1))) IdentityVisitor deleteAll [] =
     Some (Inr None, [Some (Expr (boundNum 1))])"
  using pre_nil_fails [where pre = deleteAll and n = "Some (Expr (boundNum 1))" and s = "[]"
      and sp = "[Some (Expr (boundNum 1))]" and fuel = 0 and post = IdentityVisitor]
    pre_nil_fails [where pre = IdentityVisitor and n = "Some (Expr (boundNum 1))" and s = "[]"
      and sp = "[]" and t = TypeNumber and v = "IntValue 1" and post = deleteAll
      and sd = "[Some (Expr (boundNum 1))]" and fuel = 0]
  by (simp add: deleteAll_def IdentityVisitor_def boundNum_def)

text \<open>
  C3 as stated fails: with a pre visitor that deletes whatever it is given, the walk over a
  literal ends in the contract failure, which is a panic, not in an absent result.
\<close>

theorem pre_nil_counterexample:
  "VisitBoundNode (Suc 0) (Some (Expr (boundNum 1))) deleteAll IdentityVisitor [] =
     Some (Inl PanicContractFailf, [Some (Expr (boundNum 1))])
   \<and> isPanic PanicContractFailf"
  by (simp add: deleteAll_def boundNum_def)

text \<open>
  C10 (as amended). \<open>VisitBoundExpr\<close> casts the result of the walk, which is what the post
  visitor returned for the node the pre visitor returned, or the absent result of a list
  that was emptied. If that result is a node that is not an expression, the cast ends in
  the panic of the failed type assertion, not in an error. So it does when the post
  visitor replaces a literal or a variable access by such a node, and when the pre visitor
  replaces the expression by a list property that keeps an element and that the post
  visitor returns as a node that is not an expression. When the pre visitor replaces the
  expression by a list property that is empty or whose elements are all deleted, the walk
  returns the absent result and \<open>VisitBoundExpr\<close> returns it without panic.
\<close>

theorem expr_cast_of_walk_result:
  assumes "pre (Some (Expr e)) s = (Inr (Some m), sp)"
  shows "(VisitBoundNode (Suc fuel) (Some (Expr e)) pre post s = Some (Inr (Some nn), sd)
            \<and> \<not> isBoundExpr nn \<longrightarrow>
          VisitBoundExpr (Suc fuel) (Some e) pre post s = Some (Inl PanicTypeAssertion, sd))
       \<and> ((m = Expr (BoundLiteral t v) \<or> m = Expr (BoundVariableAccess h els sch t tf il))
            \<and> post (Some m) sp = (Inr (Some nn), sd) \<and> \<not> isBoundExpr nn \<longrightarrow>
          VisitBoundExpr (Suc fuel) (Some e) pre post s = Some (Inl PanicTypeAssertion, sd))
       \<and> (m = BoundListProperty ns \<and> nodeVisits fuel pre post ns sp outs sc
            \<and> survivors outs \<noteq> []
            \<and> post (Some (BoundListProperty (survivors outs))) sc = (Inr (Some nn), sd)
            \<and> \<not> isBoundExpr nn \<longrightarrow>
          VisitBoundExpr (Suc fuel) (Some e) pre post s = Some (Inl PanicTypeAssertion, sd))
       \<and> (m = BoundListProperty ns \<and> nodeVisits fuel pre post ns sp outs sc
            \<and> survivors outs = [] \<longrightarrow>
          VisitBoundExpr (Suc fuel) (Some e) pre post s = Some (Inr None, sc))"
proof -
  have cast: "VisitBoundExpr (Suc fuel) (Some e) pre post s = Some (Inl PanicTypeAssertion, sd)"
    if "VisitBoundNode (Suc fuel) (Some (Expr e)) pre post s = Some (Inr (Some nn), sd)"
      and "\<not> isBoundExpr nn" for nn sd
    using that
    by (auto simp: VisitBoundExpr_def VisitBoundExpr_via_def isBoundExpr_def
        simp del: VisitBoundNode.simps split: BoundNode.splits)
  have leaf: "VisitBoundNode (Suc fuel) (Some (Expr e)) pre post s = Some (Inr (Some nn), sd)"
    if "m = Expr (BoundLiteral t v) \<or> m = Expr (BoundVariableAccess h els sch t tf il)"
      and "post (Some m) sp = (Inr (Some nn), sd)"
    using that assms by auto
  have kept: "VisitBoundNode (Suc fuel) (Some (Expr e)) pre post s = Some (Inr (Some nn), sd)"
    if "m = BoundListProperty ns" and "nodeVisits fuel pre post ns sp outs sc"
      and "survivors outs \<noteq> []"
      and "post (Some (BoundListProperty (survivors outs))) sc = (Inr (Some nn), sd)"
    using that assms visit_list_property [of pre "Some (Expr e)" s ns sp fuel post outs sc]
    by (simp del: VisitBoundNode.simps)
  have emptied: "VisitBoundExpr (Suc fuel) (Some e) pre post s = Some (Inr None, sc)"
    if "m = BoundListProperty ns" and "nodeVisits fuel pre post ns sp outs sc"
      and "survivors outs = []"
    using that assms visit_list_property [of pre "Some (Expr e)" s ns sp fuel post outs sc]
    by (simp add: VisitBoundExpr_def VisitBoundExpr_via_def del: VisitBoundNode.simps)
  show ?thesis
    using cast leaf kept emptied by blast
qed

lemma visit_string_numbersToList:
  "VisitBoundNode (Suc 0) (Some (Expr (BoundLiteral TypeString v))) numbersToList post log =
     Some (post (Some (Expr (BoundLiteral TypeString v)))
             (log @ [Some (Expr (BoundLiteral TypeString v))]))"
  by (simp add: numbersToList_def)

theorem expr_cast_of_walk_result_witness:
  "VisitBoundExpr (Suc 0) (Some (boundNum 1)) IdentityVisitor toListProperty [] =
     Some (Inl PanicTypeAssertion, [Some (Expr (boundNum 1))])
   \<and> VisitBoundExpr (Suc (Suc 0)) (Some (boundNum 1)) numbersToList IdentityVisitor [] =
     Some (Inl PanicTypeAssertion,
           [Some (Expr (boundNum 1)), Some (Expr (BoundLiteral TypeString (IntValue 1)))])
   \<and> VisitBoundExpr (Suc (Suc 0)) (Some (boundNum 1)) numbersToList deleteStrings [] =
     Some (Inr None,
           [Some (Expr (boundNum 1)), Some (Expr (BoundLiteral TypeString (IntValue 1))),
            Some (Expr (BoundLiteral TypeString (IntValue 1)))])"
proof -
  let ?str = "BoundLiteral TypeString (IntValue 1)"
  have p1: "IdentityVisitor (Some (Expr (boundNum 1))) ([] :: BoundNode option list) =
             (Inr (Some (Expr (boundNum 1))), [])"
    by (simp add: IdentityVisitor_def)
  have q1: "toListProperty (Some (Expr (boundNum 1))) [] =
             (Inr (Some (BoundListProperty [Expr (boundNum 1)])), [Some (Expr (boundNum 1))])"
    by (simp add: toListProperty_def)
  have n1: "\<not> isBoundExpr (BoundListProperty [Expr (boundNum 1)])"
    by (simp add: isBoundExpr_def)
  have a: "VisitBoundExpr (Suc 0) (Some (boundNum 1)) IdentityVisitor toListProperty [] =
             Some (Inl PanicTypeAssertion, [Some (Expr (boundNum 1))])"
    using expr_cast_of_walk_result [where pre = IdentityVisitor and post = toListProperty
        and fuel = 0 and t = TypeNumber and v = "IntValue 1"
        and nn = "BoundListProperty [Expr (boundNum 1)]" and sd = "[Some (Expr (boundNum 1))]",
        OF p1] q1 n1
    by (simp add: boundNum_def del: VisitBoundNode.simps)
  have p2: "numbersToList (Some (Expr (boundNum 1))) [] =
             (Inr (Some (BoundListProperty [Expr ?str])), [Some (Expr (boundNum 1))])"
    by (simp add: numbersToList_def boundNum_def)
  have v2: "nodeVisits (Suc 0) numbersToList IdentityVisitor [Expr ?str]
              [Some (Expr (boundNum 1))] [Some (Expr ?str)]
              [Some (Expr (boundNum 1)), Some (Expr ?str)]"
    by (simp add: visit_string_numbersToList IdentityVisitor_def del: VisitBoundNode.simps)
  have q2: "IdentityVisitor (Some (BoundListProperty [Expr ?str]))
              [Some (Expr (boundNum 1)), Some (Expr ?str)] =
            (Inr (Some (BoundListProperty [Expr ?str])),
             [Some (Expr (boundNum 1)), Some (Expr ?str)])"
    by (simp add: IdentityVisitor_def)
  have n2: "\<not> isBoundExpr (BoundListProperty [Expr ?str])"
    by (simp add: isBoundExpr_def)
  have b: "VisitBoundExpr (Suc (Suc 0)) (Some (boundNum 1)) numbersToList IdentityVisitor [] =
             Some (Inl PanicTypeAssertion, [Some (Expr (boundNum 1)), Some (Expr ?str)])"
    using expr_cast_of_walk_result [where pre = numbersToList and post = IdentityVisitor
        and fuel = "Suc 0" and ns = "[Expr ?str]" and outs = "[Some (Expr ?str)]"
        and sc = "[Some (Expr (boundNum 1)), Some (Expr ?str)]"
        and nn = "BoundListProperty [Expr ?str]"
        and sd = "[Some (Expr (boundNum 1)), Some (Expr ?str)]", OF p2] v2 q2 n2
    by (simp add: survivors_def del: VisitBoundNode.simps nodeVisits.simps)
  have v3: "nodeVisits (Suc 0) numbersToList deleteStrings [Expr ?str]
              [Some (Expr (boundNum 1))] [None]
              [Some (Expr (boundNum 1)), Some (Expr ?str), Some (Expr ?str)]"
    by (simp add: visit_string_numbersToList deleteStrings_def del: VisitBoundNode.simps)
  have c: "VisitBoundExpr (Suc (Suc 0)) (Some (boundNum 1)) numbersToList deleteStrings [] =
             Some (Inr None, [Some (Expr (boundNum 1)), Some (Expr ?str), Some (Expr ?str)])"
    using expr_cast_of_walk_result [where pre = numbersToList and post = deleteStrings
        and fuel = "Suc 0" and ns = "[Expr ?str]" and outs = "[None]"
        and sc = "[Some (Expr (boundNum 1)), Some (Expr ?str), Some (Expr ?str)]", OF p2] v3
    by (simp add: survivors_def del: VisitBoundNode.simps nodeVisits.simps)
  from a b c show ?thesis by blast
qed

text \<open>
  C10 as stated fails: a pre visitor that replaces the literal by the empty list property
  replaces it by a node that is not an expression, yet the walk returns the absent result
  and \<open>VisitBoundExpr\<close> returns it; nothing is cast and nothing panics.
\<close>

theorem expr_replaced_by_empty_list_counterexample:
  "toEmptyListProperty (Some (Expr (boundNum 1))) [] =
     (Inr (Some (BoundListProperty [])), [Some (Expr (boundNum 1))])
   \<and> \<not> isBoundExpr (BoundListProperty [])
   \<and> VisitBoundExpr (Suc 0) (Some (boundNum 1)) toEmptyListProperty IdentityVisitor [] =
       Some (Inr None, [Some (Expr (boundNum 1))])"
  by (simp add: toEmptyListProperty_def isBoundExpr_def VisitBoundExpr_def
      VisitBoundExpr_via_def visitBoundNodes_def boundNum_def)

end
